theory Spec2Isabelle
  imports Complex_Main
begin

section \<open>The client of the FIFO request channel (client.cpp)\<close>

text \<open>
  The theory embeds \<^verbatim>\<open>main\<close> of \<^verbatim>\<open>client.cpp\<close>: the option loop, the
  NEWCHANNEL request, the data-point requests, the file transfer and the closing QUIT.
  What \<^verbatim>\<open>main\<close> does to the outside world is recorded as a list of events, in
  program order, together with the way the run ends.

  C++ \<^verbatim>\<open>int\<close> and \<^verbatim>\<open>__int64_t\<close> values are integers of HOL; a conversion to
  \<^verbatim>\<open>int\<close> wraps to 32 bits, and a signed 64-bit sum that leaves the range ends the
  run with a fault, since C++ gives it no meaning. A finite \<^verbatim>\<open>double\<close> is a real
  number, without rounding; the infinities and NaN are values of their own.
\<close>

subsection \<open>Doubles\<close>

datatype double = Finite real | Plus_infinity | Minus_infinity | NaN

text \<open>The comparison \<^verbatim>\<open>t >= 0\<close> of line 82; it is false of NaN.\<close>

fun at_least_zero :: "double \<Rightarrow> bool" where
  "at_least_zero (Finite x) = (0 \<le> x)"
| "at_least_zero Plus_infinity = True"
| "at_least_zero Minus_infinity = False"
| "at_least_zero NaN = False"

subsection \<open>What the sources leave out: common.h and atof\<close>

text \<open>
  \<^verbatim>\<open>common.h\<close> is not among the sources. The client uses from it the constant
  \<^verbatim>\<open>MAX_MESSAGE\<close>, the enumeration \<^verbatim>\<open>MESSAGE_TYPE\<close> and the sizes of
  \<^verbatim>\<open>MESSAGE_TYPE\<close>, \<^verbatim>\<open>datamsg\<close> and \<^verbatim>\<open>filemsg\<close>. The constant and the sizes
  are parameters; of the enumeration, the two values that \<^verbatim>\<open>client.cpp\<close> names are
  kept. The library function \<^verbatim>\<open>atof\<close> is a parameter as well: what it makes of a
  string, with exponents, hexadecimal numerals, infinities, NaN and rounding, is the
  library's business, and the client is verified for every such function.
\<close>

datatype MESSAGE_TYPE = NEWCHANNEL_MSG | QUIT_MSG

record platform =
  MAX_MESSAGE :: int
  sizeof_MESSAGE_TYPE :: nat
  sizeof_datamsg :: nat
  sizeof_filemsg :: nat
  atof :: "string \<Rightarrow> double"

definition sizeof_double :: nat where
  "sizeof_double = 8"

definition sizeof_int64 :: nat where
  "sizeof_int64 = 8"

subsection \<open>Integers of fixed width\<close>

definition INT64_MAX :: int where
  "INT64_MAX = 2 ^ 63 - 1"

definition INT64_MIN :: int where
  "INT64_MIN = - (2 ^ 63)"

definition to_int32 :: "int \<Rightarrow> int" where
  "to_int32 k = signed_take_bit 31 k"

definition add64 :: "int \<Rightarrow> int \<Rightarrow> int option" where
  "add64 a b = (if INT64_MIN \<le> a + b \<and> a + b \<le> INT64_MAX then Some (a + b) else None)"

subsection \<open>Objects, bytes and buffers\<close>

text \<open>
  A byte of a buffer is a character, a byte of the object representation of a message
  struct (the struct and the index of the byte in it), or indeterminate, as the bytes of
  \<^verbatim>\<open>new char[n]\<close> and of an uninitialised array are.
\<close>

datatype obj =
    Mtype MESSAGE_TYPE
  | Datamsg int double int
  | Filemsg int int

datatype cell = Obj_byte obj nat | Chr char | Indet

definition NUL :: char where
  "NUL = CHR 0x00"

definition object_rep :: "obj \<Rightarrow> nat \<Rightarrow> cell list" where
  "object_rep x n = map (Obj_byte x) [0..<n]"

datatype fault = Bad_array_length | Buffer_overflow | Signed_overflow | Bad_c_string

definition new_char :: "int \<Rightarrow> cell list option" where
  "new_char n = (if n < 0 then None else Some (replicate (nat n) Indet))"

definition memcpy :: "cell list \<Rightarrow> cell list \<Rightarrow> nat \<Rightarrow> cell list option" where
  "memcpy dst src n =
     (if n \<le> length dst \<and> n \<le> length src then Some (take n src @ drop n dst) else None)"

definition strcpy :: "cell list \<Rightarrow> nat \<Rightarrow> string \<Rightarrow> cell list option" where
  "strcpy dst pos s =
     (let src = map Chr (takeWhile (\<lambda>ch. ch \<noteq> NUL) s) @ [Chr NUL]
      in if pos + length src \<le> length dst
         then Some (take pos dst @ src @ drop (pos + length src) dst)
         else None)"

text \<open>\<^verbatim>\<open>cread(buf, n)\<close>: the bytes the peer sent, at most \<open>n\<close> of them, land at the start of \<open>buf\<close>.\<close>

definition cread_into :: "cell list \<Rightarrow> string \<Rightarrow> nat \<Rightarrow> cell list" where
  "cread_into buf reply n = map Chr (take n reply) @ drop (min n (length reply)) buf"

text \<open>\<^verbatim>\<open>std::string(const char*)\<close>: the characters before the first NUL of the array.\<close>

fun c_string :: "cell list \<Rightarrow> string option" where
  "c_string [] = None"
| "c_string (Chr ch # cs) = (if ch = NUL then Some [] else map_option ((#) ch) (c_string cs))"
| "c_string (Obj_byte x i # cs) = None"
| "c_string (Indet # cs) = None"

subsection \<open>Library functions\<close>

fun digits_of :: "nat \<Rightarrow> string" where
  "digits_of n =
     (if n < 10 then [''0123456789'' ! n]
      else digits_of (n div 10) @ [''0123456789'' ! (n mod 10)])"

declare digits_of.simps [simp del]

definition to_string :: "int \<Rightarrow> string" where
  "to_string i = (if i < 0 then CHR ''-'' # digits_of (nat (- i)) else digits_of (nat i))"

definition isspace :: "char \<Rightarrow> bool" where
  "isspace ch = (ch \<in> set [CHR '' '', CHR 0x09, CHR 0x0A, CHR 0x0B, CHR 0x0C, CHR 0x0D])"

definition isdigit :: "char \<Rightarrow> bool" where
  "isdigit ch = (ch \<in> set ''0123456789'')"

definition decimal_value :: "string \<Rightarrow> int" where
  "decimal_value ds = foldl (\<lambda>v ch. 10 * v + (int (of_char ch) - 48)) 0 ds"

text \<open>The sign of a numeral and what follows it.\<close>

definition split_sign :: "string \<Rightarrow> bool \<times> string" where
  "split_sign s =
     (case s of
        [] \<Rightarrow> (False, [])
      | ch # cs \<Rightarrow>
          if ch = CHR ''-'' then (True, cs)
          else if ch = CHR ''+'' then (False, cs)
          else (False, s))"

text \<open>
  \<^verbatim>\<open>atoi\<close> as the C library has it, \<^verbatim>\<open>(int) strtol(s, NULL, 10)\<close>: white space,
  an optional sign, the decimal digits that follow (none gives 0); the value is clamped
  to 64 bits and converted to \<^verbatim>\<open>int\<close>.
\<close>

definition atoi :: "string \<Rightarrow> int" where
  "atoi s =
     (let (neg, r) = split_sign (dropWhile isspace s);
          v = decimal_value (takeWhile isdigit r)
      in to_int32 (max INT64_MIN (min INT64_MAX (if neg then - v else v))))"

text \<open>
  The platform of the examples has to name some function in the place of \<^verbatim>\<open>atof\<close>.
  This one gives the value of a decimal numeral with an optional sign and an optional
  fraction; it is not the library's \<^verbatim>\<open>atof\<close> beyond that (no exponent, no hexadecimal
  numeral, no infinity, no NaN, no rounding). No example passes \<^verbatim>\<open>-t\<close>, so it is
  never applied in them, and every property below is proved for every \<^verbatim>\<open>atof\<close>.
\<close>

definition decimal_atof :: "string \<Rightarrow> double" where
  "decimal_atof s =
     (let (neg, r) = split_sign (dropWhile isspace s);
          ip = takeWhile isdigit r;
          rest = dropWhile isdigit r;
          fp = (case rest of [] \<Rightarrow> [] | ch # cs \<Rightarrow> if ch = CHR ''.'' then takeWhile isdigit cs else []);
          v = real_of_int (decimal_value ip) + real_of_int (decimal_value fp) / 10 ^ length fp
      in Finite (if neg then - v else v))"

subsection \<open>Channels, events and runs\<close>

text \<open>
  The client holds at most two channel objects: \<^verbatim>\<open>chan\<close>, on the well-known name
  \<^verbatim>\<open>control\<close>, and the one it creates on the name the server sends back.
\<close>

datatype chan = Control_chan | New_chan string

fun chan_name :: "chan \<Rightarrow> string" where
  "chan_name Control_chan = ''control''"
| "chan_name (New_chan n) = n"

text \<open>What a statement writing to \<^verbatim>\<open>cout\<close> prints.\<close>

datatype line =
    Value_line int double int double
  | Could_not_open string
  | File_length string int
  | Closing_channel string

text \<open>
  \<open>CWrite ch bs\<close> is \<^verbatim>\<open>cwrite\<close> of the bytes \<open>bs\<close> on channel \<open>ch\<close>, \<open>CRead ch n\<close> is
  \<^verbatim>\<open>cread\<close> of \<open>n\<close> bytes from it, and \<open>Close ch\<close> is the destruction of the channel
  object. \<open>Exec\<close> is the child process that runs the server. The \<open>Ofs\<close> events are the
  output file streams: a row of the CSV file is kept as its three values.
\<close>

datatype event =
    Exec "string list"
  | CWrite chan "cell list"
  | CRead chan nat
  | Cout line
  | Ofs_open string
  | Ofs_row string double double double
  | Ofs_write string "cell list"
  | Ofs_close string
  | Close chan

text \<open>
  A run is still \<open>Running\<close>, has left \<^verbatim>\<open>main\<close> with a return value, was ended by
  a fault, or was cut off because the file loop was given too little fuel.
\<close>

datatype status = Running | Returned int | Aborted fault | Out_of_fuel

type_synonym run = "event list \<times> status"

definition then_run :: "run \<Rightarrow> run \<Rightarrow> run" where
  "then_run r1 r2 = (case snd r1 of Running \<Rightarrow> (fst r1 @ fst r2, snd r2) | _ \<Rightarrow> r1)"

subsection \<open>The peer and the file system\<close>

text \<open>
  What the client reads depends on the server and on the file system, which are outside
  the client: the bytes sent in reply to NEWCHANNEL, the value sent for a data point, the
  length sent for the probe \<^verbatim>\<open>FILE(0,0)\<close>, the bytes sent for a chunk request, and
  whether an output file can be opened.
\<close>

record peer =
  newchannel_reply :: string
  ecg_reply :: "int \<Rightarrow> double \<Rightarrow> int \<Rightarrow> double"
  filelen_reply :: int
  chunk_reply :: "int \<Rightarrow> int \<Rightarrow> string"
  can_open :: "string \<Rightarrow> bool"

subsection \<open>The option loop (lines 20 to 49)\<close>

record args =
  p :: int
  t :: double
  c :: bool
  e :: int
  filename :: string
  buffercapacity :: int

text \<open>
  One round of \<^verbatim>\<open>getopt\<close>: the option character it returns and \<^verbatim>\<open>optarg\<close>. A
  character that is none of the six cases changes nothing.
\<close>

datatype opt = Opt char string

definition initial_args :: "platform \<Rightarrow> args" where
  "initial_args h =
     \<lparr>p = - 1, t = Finite (- 1), c = False, e = 1, filename = [], buffercapacity = MAX_MESSAGE h\<rparr>"

fun set_option :: "platform \<Rightarrow> args \<Rightarrow> opt \<Rightarrow> args" where
  "set_option h a (Opt ch optarg) =
     (if ch = CHR ''p'' then a\<lparr>p := atoi optarg\<rparr>
      else if ch = CHR ''t'' then a\<lparr>t := atof h optarg\<rparr>
      else if ch = CHR ''e'' then a\<lparr>e := atoi optarg\<rparr>
      else if ch = CHR ''f'' then a\<lparr>filename := takeWhile (\<lambda>x. x \<noteq> NUL) optarg\<rparr>
      else if ch = CHR ''c'' then a\<lparr>c := True\<rparr>
      else if ch = CHR ''m'' then a\<lparr>buffercapacity := atoi optarg\<rparr>
      else a)"

definition parse_options :: "platform \<Rightarrow> opt list \<Rightarrow> args" where
  "parse_options h opts = foldl (set_option h) (initial_args h) opts"

subsection \<open>The NEWCHANNEL request (lines 61 to 79)\<close>

definition request_new_channel :: "platform \<Rightarrow> peer \<Rightarrow> args \<Rightarrow> event list \<times> (fault + chan)" where
  "request_new_channel h srv a =
     (if c a then
        (case new_char (buffercapacity a) of
           None \<Rightarrow> ([], Inl Bad_array_length)
         | Some buf \<Rightarrow>
            (case memcpy buf (object_rep (Mtype NEWCHANNEL_MSG) (sizeof_MESSAGE_TYPE h))
                    (sizeof_MESSAGE_TYPE h) of
               None \<Rightarrow> ([], Inl Buffer_overflow)
             | Some buf' \<Rightarrow>
                (let asked = [CWrite Control_chan (take (sizeof_MESSAGE_TYPE h) buf'),
                              CRead Control_chan 30];
                     buf2 = cread_into (replicate 30 Indet) (newchannel_reply srv) 30
                 in case c_string buf2 of
                      None \<Rightarrow> (asked, Inl Bad_c_string)
                    | Some new_channel_name \<Rightarrow> (asked, Inr (New_chan new_channel_name)))))
      else ([], Inr Control_chan))"

subsection \<open>Data points (lines 82 to 129)\<close>

text \<open>
  The three statements that lines 86 to 89 and, twice, lines 109 to 120 consist of:
  \<^verbatim>\<open>memcpy\<close> of the \<^verbatim>\<open>datamsg\<close> into the buffer, \<^verbatim>\<open>cwrite\<close> of
  \<^verbatim>\<open>sizeof(datamsg)\<close> bytes of it, \<^verbatim>\<open>cread\<close> of \<^verbatim>\<open>sizeof(double)\<close> bytes.
\<close>

definition ask_data :: "platform \<Rightarrow> chan \<Rightarrow> cell list \<Rightarrow> int \<Rightarrow> double \<Rightarrow> int \<Rightarrow> run" where
  "ask_data h ch buf person seconds ecgno =
     (case memcpy buf (object_rep (Datamsg person seconds ecgno) (sizeof_datamsg h))
             (sizeof_datamsg h) of
        None \<Rightarrow> ([], Aborted Buffer_overflow)
      | Some buf' \<Rightarrow>
          ([CWrite ch (take (sizeof_datamsg h) buf'), CRead ch sizeof_double], Running))"

definition request_data_point :: "platform \<Rightarrow> peer \<Rightarrow> chan \<Rightarrow> args \<Rightarrow> run" where
  "request_data_point h srv ch a =
     (case new_char (buffercapacity a) of
        None \<Rightarrow> ([], Aborted Bad_array_length)
      | Some buf \<Rightarrow>
          then_run (ask_data h ch buf (p a) (t a) (e a))
            ([Cout (Value_line (p a) (t a) (e a) (ecg_reply srv (p a) (t a) (e a)))], Running))"

definition point_iteration :: "platform \<Rightarrow> peer \<Rightarrow> chan \<Rightarrow> args \<Rightarrow> string \<Rightarrow> nat \<Rightarrow> run" where
  "point_iteration h srv ch a outfile i =
     (let time = Finite (real i * 0.004) in
      case new_char (buffercapacity a) of
        None \<Rightarrow> ([], Aborted Bad_array_length)
      | Some buf_ecg1 \<Rightarrow>
         (case new_char (buffercapacity a) of
            None \<Rightarrow> ([], Aborted Bad_array_length)
          | Some buf_ecg2 \<Rightarrow>
              then_run (ask_data h ch buf_ecg1 (p a) time 1)
                (then_run (ask_data h ch buf_ecg2 (p a) time 2)
                   ([Ofs_row outfile time (ecg_reply srv (p a) time 1) (ecg_reply srv (p a) time 2)],
                    Running))))"

function point_loop :: "platform \<Rightarrow> peer \<Rightarrow> chan \<Rightarrow> args \<Rightarrow> string \<Rightarrow> nat \<Rightarrow> run" where
  "point_loop h srv ch a outfile i =
     (if i < 1000
      then then_run (point_iteration h srv ch a outfile i) (point_loop h srv ch a outfile (i + 1))
      else ([], Running))"
  by pat_completeness auto
termination
  by (relation "measure (\<lambda>(h, srv, ch, a, outfile, i). 1000 - i)") auto

declare point_loop.simps [simp del]

definition request_points :: "platform \<Rightarrow> peer \<Rightarrow> chan \<Rightarrow> args \<Rightarrow> run" where
  "request_points h srv ch a =
     (let outfile = ''received/x'' @ to_string (p a) @ ''.csv'' in
      if \<not> can_open srv outfile then ([Cout (Could_not_open outfile)], Returned 1)
      else then_run ([Ofs_open outfile], Running)
             (then_run (point_loop h srv ch a outfile 0) ([Ofs_close outfile], Running)))"

definition data_points :: "platform \<Rightarrow> peer \<Rightarrow> chan \<Rightarrow> args \<Rightarrow> run" where
  "data_points h srv ch a =
     (if 0 \<le> p a \<and> at_least_zero (t a) then request_data_point h srv ch a
      else if 0 \<le> p a then request_points h srv ch a
      else ([], Running))"

subsection \<open>File transfer (lines 133 to 186)\<close>

text \<open>
  Lines 135 to 142 and lines 164 to 173 are the same statements, on \<^verbatim>\<open>filemsg(0, 0)\<close>
  and on \<^verbatim>\<open>filemsg(offset, length)\<close>: the buffer of \<^verbatim>\<open>len\<close> bytes, \<^verbatim>\<open>memcpy\<close> of
  the struct, \<^verbatim>\<open>strcpy\<close> of the file name behind it, \<^verbatim>\<open>cwrite\<close> of \<^verbatim>\<open>len\<close> bytes.
\<close>

definition file_request :: "platform \<Rightarrow> chan \<Rightarrow> string \<Rightarrow> int \<Rightarrow> int \<Rightarrow> run" where
  "file_request h ch name offset length' =
     (let len = to_int32 (int (sizeof_filemsg h + (length name + 1))) in
      case new_char len of
        None \<Rightarrow> ([], Aborted Bad_array_length)
      | Some buf \<Rightarrow>
         (case memcpy buf (object_rep (Filemsg offset length') (sizeof_filemsg h))
                 (sizeof_filemsg h) of
            None \<Rightarrow> ([], Aborted Buffer_overflow)
          | Some buf' \<Rightarrow>
             (case strcpy buf' (sizeof_filemsg h) name of
                None \<Rightarrow> ([], Aborted Buffer_overflow)
              | Some buf'' \<Rightarrow> ([CWrite ch (take (nat len) buf'')], Running))))"

text \<open>The body of the loop of line 159.\<close>

definition file_iteration ::
  "platform \<Rightarrow> peer \<Rightarrow> chan \<Rightarrow> string \<Rightarrow> string \<Rightarrow> int \<Rightarrow> int \<Rightarrow> int \<Rightarrow> run" where
  "file_iteration h srv ch name outputfile capacity filelen offset =
     (case add64 offset capacity of
        None \<Rightarrow> ([], Aborted Signed_overflow)
      | Some reach \<Rightarrow>
         (let length' = (if reach > filelen then to_int32 (filelen - offset) else capacity) in
          then_run (file_request h ch name offset length')
            (case new_char length' of
               None \<Rightarrow> ([], Aborted Bad_array_length)
             | Some buf4 \<Rightarrow>
                 ([CRead ch (nat length'),
                   Ofs_write outputfile
                     (take (nat length')
                        (cread_into buf4 (chunk_reply srv offset length') (nat length')))],
                  Running))))"

text \<open>
  The loop of line 159. With a capacity of 0 it never ends, so it runs on fuel: one unit
  for each iteration.
\<close>

fun file_loop ::
  "platform \<Rightarrow> peer \<Rightarrow> chan \<Rightarrow> string \<Rightarrow> string \<Rightarrow> int \<Rightarrow> int \<Rightarrow> nat \<Rightarrow> int \<Rightarrow> run" where
  "file_loop h srv ch name outputfile capacity filelen 0 offset =
     (if offset < filelen then ([], Out_of_fuel) else ([], Running))"
| "file_loop h srv ch name outputfile capacity filelen (Suc fuel) offset =
     (if offset < filelen
      then then_run (file_iteration h srv ch name outputfile capacity filelen offset)
             (case add64 offset capacity of
                None \<Rightarrow> ([], Aborted Signed_overflow)
              | Some offset' \<Rightarrow> file_loop h srv ch name outputfile capacity filelen fuel offset')
      else ([], Running))"

definition request_file :: "platform \<Rightarrow> peer \<Rightarrow> chan \<Rightarrow> args \<Rightarrow> nat \<Rightarrow> run" where
  "request_file h srv ch a fuel =
     (if length (filename a) > 0 then
        then_run (file_request h ch (filename a) 0 0)
          (then_run
             ([CRead ch sizeof_int64, Cout (File_length (filename a) (filelen_reply srv))], Running)
             (let outputfile = ''received/'' @ filename a in
              if \<not> can_open srv outputfile then ([Cout (Could_not_open outputfile)], Returned 1)
              else then_run ([Ofs_open outputfile], Running)
                     (then_run
                        (file_loop h srv ch (filename a) outputfile (buffercapacity a)
                           (filelen_reply srv) fuel 0)
                        ([Ofs_close outputfile], Running))))
      else ([], Running))"

subsection \<open>Closing the channel (lines 189 to 195) and the whole of main\<close>

definition quit_message :: "platform \<Rightarrow> cell list" where
  "quit_message h = object_rep (Mtype QUIT_MSG) (sizeof_MESSAGE_TYPE h)"

definition close_channel :: "platform \<Rightarrow> args \<Rightarrow> chan \<Rightarrow> run" where
  "close_channel h a active_chan =
     ([Cout (Closing_channel (chan_name active_chan)), CWrite active_chan (quit_message h)]
        @ (if c a then [Close active_chan] else []),
      Returned 0)"

text \<open>
  \<^verbatim>\<open>chan\<close> is a local object of \<^verbatim>\<open>main\<close>: it is destroyed at every
  \<^verbatim>\<open>return\<close>. The channel made for \<^verbatim>\<open>-c\<close> lives on the heap and is destroyed by
  line 194 only.
\<close>

definition leave_main :: "run \<Rightarrow> run" where
  "leave_main r =
     (case snd r of Returned k \<Rightarrow> (fst r @ [Close Control_chan], Returned k) | _ \<Rightarrow> r)"

text \<open>
  Lines 52 to 59 start the server in a child process, with the capacity as its
  \<^verbatim>\<open>-m\<close> argument; the events that follow are those of the parent.
\<close>

definition run_server :: "args \<Rightarrow> event" where
  "run_server a = Exec [''./server'', ''-m'', to_string (buffercapacity a)]"

definition client :: "platform \<Rightarrow> peer \<Rightarrow> args \<Rightarrow> nat \<Rightarrow> run" where
  "client h srv a fuel =
     leave_main
       (case request_new_channel h srv a of
          (es, Inl f) \<Rightarrow> (run_server a # es, Aborted f)
        | (es, Inr active_chan) \<Rightarrow>
            then_run (run_server a # es, Running)
              (then_run (data_points h srv active_chan a)
                 (then_run (request_file h srv active_chan a fuel)
                    (close_channel h a active_chan))))"

definition main :: "platform \<Rightarrow> peer \<Rightarrow> opt list \<Rightarrow> nat \<Rightarrow> run" where
  "main h srv opts fuel = client h srv (parse_options h opts) fuel"

section \<open>Reading a run\<close>

text \<open>
  The FILE request a \<^verbatim>\<open>cwrite\<close> carries: the offset and the length of the
  \<^verbatim>\<open>filemsg\<close> whose bytes it starts with.
\<close>

definition request_of :: "event \<Rightarrow> (int \<times> int) option" where
  "request_of ev =
     (case ev of
        CWrite ch bs \<Rightarrow>
          (case bs of
             Obj_byte x i # rest \<Rightarrow>
               (case x of Filemsg offset length' \<Rightarrow> Some (offset, length') | _ \<Rightarrow> None)
           | _ \<Rightarrow> None)
      | _ \<Rightarrow> None)"

definition file_requests :: "event list \<Rightarrow> (int \<times> int) list" where
  "file_requests es = List.map_filter request_of es"

text \<open>The bytes written to the output file \<open>path\<close>, in order.\<close>

definition written_to :: "string \<Rightarrow> event \<Rightarrow> cell list" where
  "written_to path ev =
     (case ev of Ofs_write path' bs \<Rightarrow> if path' = path then bs else [] | _ \<Rightarrow> [])"

definition written :: "string \<Rightarrow> event list \<Rightarrow> cell list" where
  "written path es = concat (map (written_to path) es)"

text \<open>The channel a \<^verbatim>\<open>cwrite\<close> or a \<^verbatim>\<open>cread\<close> is made on.\<close>

definition chan_of :: "event \<Rightarrow> chan option" where
  "chan_of ev = (case ev of CWrite ch bs \<Rightarrow> Some ch | CRead ch n \<Rightarrow> Some ch | _ \<Rightarrow> None)"

text \<open>
  The discipline of one request in flight, on channel \<open>ch\<close>. The state is whether a
  request is waiting for its reply; \<open>None\<close> is a broken discipline: a \<^verbatim>\<open>cwrite\<close>
  while a request is waiting, or a \<^verbatim>\<open>cread\<close> of at least one byte while none is.
  A \<^verbatim>\<open>cread\<close> of no byte takes nothing from the channel: it reads no reply, and the
  request before it is still waiting.
\<close>

definition in_flight :: "chan \<Rightarrow> bool option \<Rightarrow> event \<Rightarrow> bool option" where
  "in_flight ch s ev =
     (case s of
        None \<Rightarrow> None
      | Some waiting \<Rightarrow>
         (case ev of
            CWrite ch' bs \<Rightarrow>
              if ch' = ch then (if waiting then None else Some True) else Some waiting
          | CRead ch' n \<Rightarrow>
              if ch' = ch \<and> 0 < n then (if waiting then Some False else None)
              else Some waiting
          | _ \<Rightarrow> Some waiting))"

definition one_in_flight :: "chan \<Rightarrow> event list \<Rightarrow> bool" where
  "one_in_flight ch es = (foldl (in_flight ch) (Some False) es \<noteq> None)"

text \<open>
  The chunk sequence as the specification words it: the first offset is \<open>offset\<close>, each
  chunk is \<open>min capacity (filelen - offset)\<close> and is not empty, the next offset is the
  offset plus the chunk, and the offset after the last chunk is \<open>filelen\<close>.
\<close>

fun chained :: "int \<Rightarrow> int \<Rightarrow> int \<Rightarrow> (int \<times> int) list \<Rightarrow> bool" where
  "chained capacity filelen offset [] = (offset = filelen)"
| "chained capacity filelen offset ((offset', chunk) # rs) =
     (offset' = offset \<and> chunk = min capacity (filelen - offset) \<and> 0 < chunk \<and>
      chained capacity filelen (offset + chunk) rs)"

text \<open>
  Modelled from the spec: the server is not among the sources. To \<^verbatim>\<open>FILE(offset, chunk)\<close>
  it replies with exactly \<open>chunk\<close> raw bytes of the file, those that start at \<open>offset\<close>.
\<close>

definition serve_chunk :: "string \<Rightarrow> int \<Rightarrow> int \<Rightarrow> string" where
  "serve_chunk file offset chunk = take (nat chunk) (drop (nat offset) file)"

text \<open>
  The sizes of a usual build for 64-bit Linux, and a peer that sends the name
  \<^verbatim>\<open>data1_\<close> for NEWCHANNEL, 0.5 for every data point and a file of 2500 letters;
  the examples below run on them.
\<close>

definition lp64 :: platform where
  "lp64 =
     \<lparr>MAX_MESSAGE = 256, sizeof_MESSAGE_TYPE = 4, sizeof_datamsg = 24, sizeof_filemsg = 24,
      atof = decimal_atof\<rparr>"

definition letters :: string where
  "letters = replicate 2500 CHR ''x''"

definition example_peer :: peer where
  "example_peer =
     \<lparr>newchannel_reply = ''data1_'' @ [NUL],
      ecg_reply = (\<lambda>person seconds ecgno. Finite 0.5),
      filelen_reply = 2500,
      chunk_reply = serve_chunk letters,
      can_open = (\<lambda>path. True)\<rparr>"

text \<open>
  What \<^verbatim>\<open>strcpy\<close> leaves behind the struct: the name up to its first NUL, the NUL, and
  the bytes of the buffer it did not reach.
\<close>

definition padded_name :: "string \<Rightarrow> cell list" where
  "padded_name name =
     map Chr (takeWhile (\<lambda>ch. ch \<noteq> NUL) name) @ [Chr NUL]
       @ replicate (length name - length (takeWhile (\<lambda>ch. ch \<noteq> NUL) name)) Indet"

text \<open>The events of one iteration of the file loop that asks for \<open>chunk\<close> bytes at \<open>offset\<close>.\<close>

definition chunk_events ::
  "platform \<Rightarrow> peer \<Rightarrow> chan \<Rightarrow> string \<Rightarrow> string \<Rightarrow> int \<Rightarrow> int \<Rightarrow> event list" where
  "chunk_events h srv ch name outputfile offset chunk =
     [CWrite ch (object_rep (Filemsg offset chunk) (sizeof_filemsg h) @ padded_name name),
      CRead ch (nat chunk),
      Ofs_write outputfile
        (take (nat chunk)
           (cread_into (replicate (nat chunk) Indet) (chunk_reply srv offset chunk) (nat chunk)))]"

text \<open>The events of the iterations that ask for the chunks \<open>rs\<close>, one after the other.\<close>

definition all_chunk_events ::
  "platform \<Rightarrow> peer \<Rightarrow> chan \<Rightarrow> string \<Rightarrow> string \<Rightarrow> (int \<times> int) list \<Rightarrow> event list" where
  "all_chunk_events h srv ch name outputfile rs =
     concat (map (\<lambda>(offset, chunk). chunk_events h srv ch name outputfile offset chunk) rs)"

text \<open>The length that lines 160 and 161 compute for the chunk at \<open>offset\<close>.\<close>

definition chunk_length :: "int \<Rightarrow> int \<Rightarrow> int \<Rightarrow> int" where
  "chunk_length capacity filelen offset =
     (if offset + capacity > filelen then to_int32 (filelen - offset) else capacity)"

text \<open>A peer on a file system where no output file can be opened.\<close>

definition read_only_peer :: peer where
  "read_only_peer = example_peer\<lparr>can_open := (\<lambda>path. False)\<rparr>"

text \<open>The argument of the last \<^verbatim>\<open>-m\<close> among the options, if there is one.\<close>

fun capacity_option :: "opt list \<Rightarrow> string option" where
  "capacity_option [] = None"
| "capacity_option (Opt ch optarg # opts) =
     (case capacity_option opts of
        Some s \<Rightarrow> Some s
      | None \<Rightarrow> if ch = CHR ''m'' then Some optarg else None)"

text \<open>
  A run keeps the discipline on \<open>ch\<close> and, if it goes on, leaves no request waiting.
\<close>

definition settled :: "chan \<Rightarrow> run \<Rightarrow> bool" where
  "settled ch r =
     (foldl (in_flight ch) (Some False) (fst r) = Some False \<or>
      (snd r \<noteq> Running \<and> foldl (in_flight ch) (Some False) (fst r) = Some True))"

text \<open>The requests on the active channel, from line 82 to the end of \<^verbatim>\<open>main\<close>.\<close>

definition requests :: "platform \<Rightarrow> peer \<Rightarrow> chan \<Rightarrow> args \<Rightarrow> nat \<Rightarrow> run" where
  "requests h srv ch a fuel =
     then_run (data_points h srv ch a)
       (then_run (request_file h srv ch a fuel) (close_channel h a ch))"

text \<open>
  Every \<^verbatim>\<open>cwrite\<close> and \<^verbatim>\<open>cread\<close> of the run is on \<open>ch\<close>, and a run that returns 0
  has written QUIT on \<open>ch\<close>.
\<close>

definition stays_on :: "platform \<Rightarrow> chan \<Rightarrow> run \<Rightarrow> bool" where
  "stays_on h ch r =
     ((\<forall>ev \<in> set (fst r). chan_of ev = None \<or> chan_of ev = Some ch) \<and>
      (snd r = Returned 0 \<longrightarrow> CWrite ch (quit_message h) \<in> set (fst r)))"

section \<open>Properties\<close>

subsection \<open>Integers, runs and buffers\<close>

lemma to_int32_id: "- (2 ^ 31) \<le> k \<Longrightarrow> k < 2 ^ 31 \<Longrightarrow> to_int32 k = k"
  by (simp add: to_int32_def signed_take_bit_int_eq_self)

lemma to_int32_le: "0 \<le> k \<Longrightarrow> to_int32 k \<le> k"
  by (simp add: to_int32_def signed_take_bit_int_less_eq_self_iff)

lemma then_run_Running [simp]: "then_run (es, Running) r = (es @ fst r, snd r)"
  by (simp add: then_run_def)

lemma then_run_stop: "st \<noteq> Running \<Longrightarrow> then_run (es, st) r = (es, st)"
  by (cases st) (simp_all add: then_run_def)

lemma fst_then_run: "fst (then_run r1 r2) = (if snd r1 = Running then fst r1 @ fst r2 else fst r1)"
  by (cases "snd r1") (simp_all add: then_run_def)

lemma snd_then_run: "snd (then_run r1 r2) = (if snd r1 = Running then snd r2 else snd r1)"
  by (cases "snd r1") (simp_all add: then_run_def)

lemma length_object_rep [simp]: "length (object_rep x n) = n"
  by (simp add: object_rep_def)

lemma length_padded_name [simp]: "length (padded_name name) = length name + 1"
  using length_takeWhile_le [of "\<lambda>ch. ch \<noteq> NUL" name] by (simp add: padded_name_def)

lemma takeWhile_no_NUL: "NUL \<notin> set name \<Longrightarrow> takeWhile (\<lambda>ch. ch \<noteq> NUL) name = name"
  by (induction name) auto

lemma padded_name_plain: "NUL \<notin> set name \<Longrightarrow> padded_name name = map Chr name @ [Chr NUL]"
  by (simp add: padded_name_def takeWhile_no_NUL)

lemma memcpy_object:
  "sz \<le> n \<Longrightarrow>
   memcpy (replicate n Indet) (object_rep x sz) sz = Some (object_rep x sz @ replicate (n - sz) Indet)"
  by (simp add: memcpy_def)

lemma memcpy_short: "n < sz \<Longrightarrow> memcpy (replicate n Indet) src sz = None"
  by (simp add: memcpy_def)

lemma strcpy_name:
  assumes "length pre = sz"
  shows "strcpy (pre @ replicate (length name + 1) Indet) sz name = Some (pre @ padded_name name)"
  using assms length_takeWhile_le [of "\<lambda>ch. ch \<noteq> NUL" name]
  by (simp add: strcpy_def padded_name_def Let_def)

subsection \<open>The FILE request\<close>

lemma file_request_unfold:
  "file_request h ch name off k =
     (case new_char (to_int32 (int (sizeof_filemsg h + (length name + 1)))) of
        None \<Rightarrow> ([], Aborted Bad_array_length)
      | Some buf \<Rightarrow>
         (case memcpy buf (object_rep (Filemsg off k) (sizeof_filemsg h)) (sizeof_filemsg h) of
            None \<Rightarrow> ([], Aborted Buffer_overflow)
          | Some buf' \<Rightarrow>
             (case strcpy buf' (sizeof_filemsg h) name of
                None \<Rightarrow> ([], Aborted Buffer_overflow)
              | Some buf'' \<Rightarrow>
                  ([CWrite ch
                      (take (nat (to_int32 (int (sizeof_filemsg h + (length name + 1))))) buf'')],
                   Running))))"
  unfolding file_request_def Let_def by (rule refl)

lemma file_request_shape:
  "(\<exists>f. file_request h ch name off k = ([], Aborted f)) \<or>
   (\<exists>bs. file_request h ch name off k = ([CWrite ch bs], Running))"
  unfolding file_request_unfold by (simp split: option.split)

lemma file_request_exact:
  assumes len: "nat (to_int32 (int (sizeof_filemsg h + (length name + 1)))) =
      sizeof_filemsg h + (length name + 1)"
  shows "file_request h ch name off k =
     ([CWrite ch (object_rep (Filemsg off k) (sizeof_filemsg h) @ padded_name name)], Running)"
proof -
  define sz where "sz = sizeof_filemsg h"
  define x where "x = Filemsg off k"
  define len where "len = to_int32 (int (sz + (length name + 1)))"
  have n: "nat len = sz + (length name + 1)"
    using len by (simp only: len_def sz_def)
  then have "0 \<le> len" by linarith
  then have nc: "new_char len = Some (replicate (sz + (length name + 1)) Indet)"
    by (simp add: new_char_def n)
  have m: "memcpy (replicate (sz + (length name + 1)) Indet) (object_rep x sz) sz =
      Some (object_rep x sz @ replicate (length name + 1) Indet)"
    using memcpy_object [of sz "sz + (length name + 1)" x] by simp
  have s: "strcpy (object_rep x sz @ replicate (length name + 1) Indet) sz name =
      Some (object_rep x sz @ padded_name name)"
    by (rule strcpy_name) simp
  have tk: "take (nat len) (object_rep x sz @ padded_name name) = object_rep x sz @ padded_name name"
    by (simp add: n)
  have "file_request h ch name off k = ([CWrite ch (object_rep x sz @ padded_name name)], Running)"
    unfolding file_request_unfold
    by (simp only: nc m s tk option.case flip: sz_def x_def len_def)
  then show ?thesis by (simp only: sz_def x_def)
qed

lemma file_request_fits:
  assumes "int (sizeof_filemsg h + (length name + 1)) < 2 ^ 31"
  shows "file_request h ch name off k =
     ([CWrite ch (object_rep (Filemsg off k) (sizeof_filemsg h) @ padded_name name)], Running)"
proof (rule file_request_exact)
  have "to_int32 (int (sizeof_filemsg h + (length name + 1))) =
      int (sizeof_filemsg h + (length name + 1))"
    using assms by (intro to_int32_id) simp_all
  then show "nat (to_int32 (int (sizeof_filemsg h + (length name + 1)))) =
      sizeof_filemsg h + (length name + 1)"
    by (simp only: nat_int)
qed

lemma file_request_plain:
  assumes nul: "NUL \<notin> set name"
    and run: "file_request h ch name off k = ([CWrite ch' bs], st)"
  shows "bs = object_rep (Filemsg off k) (sizeof_filemsg h) @ map Chr name @ [Chr NUL]"
proof -
  define n where "n = sizeof_filemsg h + (length name + 1)"
  define len where "len = to_int32 (int n)"
  have le: "len \<le> int n" unfolding len_def by (rule to_int32_le) simp
  note tw = takeWhile_no_NUL [OF nul]
  from run have "0 \<le> len \<and> n \<le> nat len"
    unfolding file_request_unfold
    by (auto simp: new_char_def memcpy_def strcpy_def Let_def tw len_def n_def
        split: option.splits if_splits)
  with le have "nat len = n" by linarith
  then have "file_request h ch name off k =
     ([CWrite ch (object_rep (Filemsg off k) (sizeof_filemsg h) @ padded_name name)], Running)"
    unfolding len_def n_def by (rule file_request_exact)
  with run show ?thesis by (simp add: padded_name_plain [OF nul])
qed

subsection \<open>The file loop within the range of the integers\<close>

lemma all_chunk_events_simps [simp]:
  "all_chunk_events h srv ch name out [] = []"
  "all_chunk_events h srv ch name out ((off, k) # rs) =
     chunk_events h srv ch name out off k @ all_chunk_events h srv ch name out rs"
  by (simp_all add: all_chunk_events_def)

lemma add64_in_range:
  "INT64_MIN \<le> a + b \<Longrightarrow> a + b \<le> INT64_MAX \<Longrightarrow> add64 a b = Some (a + b)"
  by (simp add: add64_def)

lemma file_iteration_good:
  assumes C: "0 < C" "C < 2 ^ 31"
    and off: "0 \<le> off" "off < L" "off + C \<le> INT64_MAX"
    and name: "int (sizeof_filemsg h + (length name + 1)) < 2 ^ 31"
  shows "file_iteration h srv ch name out C L off =
     (chunk_events h srv ch name out off (min C (L - off)), Running)"
proof -
  define k where "k = min C (L - off)"
  have k: "0 < k" "k \<le> C" using C off by (simp_all add: k_def)
  have reach: "add64 off C = Some (off + C)"
    using off C by (intro add64_in_range) (simp_all add: INT64_MIN_def)
  have len: "(if off + C > L then to_int32 (L - off) else C) = k"
  proof (cases "off + C > L")
    case True
    then have "k = L - off" by (simp add: k_def)
    moreover have "to_int32 (L - off) = L - off"
      using True off C by (intro to_int32_id) simp_all
    ultimately show ?thesis using True by simp
  next
    case False
    then show ?thesis by (simp add: k_def)
  qed
  have nc: "new_char k = Some (replicate (nat k) Indet)"
    using k by (simp add: new_char_def)
  show ?thesis
    unfolding file_iteration_def
    by (simp only: reach option.case Let_def len nc file_request_fits [OF name] then_run_Running
        chunk_events_def fst_conv snd_conv flip: k_def) simp
qed

lemma file_loop_done:
  "\<not> off < L \<Longrightarrow> file_loop h srv ch name out C L fuel off = ([], Running)"
  by (cases fuel) simp_all

lemma file_loop_step:
  assumes C: "0 < C" "C < 2 ^ 31"
    and off: "0 \<le> off" "off < L" "off + C \<le> INT64_MAX"
    and name: "int (sizeof_filemsg h + (length name + 1)) < 2 ^ 31"
  shows "file_loop h srv ch name out C L (Suc fuel) off =
     (chunk_events h srv ch name out off (min C (L - off))
        @ fst (file_loop h srv ch name out C L fuel (off + C)),
      snd (file_loop h srv ch name out C L fuel (off + C)))"
proof -
  have reach: "add64 off C = Some (off + C)"
    using off C by (intro add64_in_range) (simp_all add: INT64_MIN_def)
  show ?thesis
    using off(2) by (simp add: file_iteration_good [OF assms] reach)
qed

lemma file_loop_chained:
  assumes C: "0 < C" "C < 2 ^ 31"
    and L: "L + C \<le> INT64_MAX"
    and name: "int (sizeof_filemsg h + (length name + 1)) < 2 ^ 31"
  shows "0 \<le> off \<Longrightarrow> off \<le> L \<Longrightarrow> L - off \<le> int fuel * C \<Longrightarrow>
    \<exists>rs. file_loop h srv ch name out C L fuel off =
            (all_chunk_events h srv ch name out rs, Running) \<and>
         chained C L off rs"
proof (induction fuel arbitrary: off)
  case 0
  then have "off = L" by simp
  then have "file_loop h srv ch name out C L 0 off = (all_chunk_events h srv ch name out [], Running) \<and> chained C L off []"
    by simp
  then show ?case by blast
next
  case (Suc fuel)
  show ?case
  proof (cases "off < L")
    case False
    with Suc.prems have "off = L" by simp
    then have "file_loop h srv ch name out C L (Suc fuel) off = (all_chunk_events h srv ch name out [], Running) \<and> chained C L off []"
      by simp
    then show ?thesis by blast
  next
    case True
    have step: "file_loop h srv ch name out C L (Suc fuel) off =
       (chunk_events h srv ch name out off (min C (L - off))
          @ fst (file_loop h srv ch name out C L fuel (off + C)),
        snd (file_loop h srv ch name out C L fuel (off + C)))"
      using C Suc.prems(1) True L name by (intro file_loop_step) simp_all
    show ?thesis
    proof (cases "off + C \<le> L")
      case le: True
      have "L - (off + C) \<le> int fuel * C"
        using Suc.prems(3) by (simp add: algebra_simps)
      with Suc.IH [of "off + C"] le Suc.prems(1) C(1)
      obtain rs where rs: "file_loop h srv ch name out C L fuel (off + C) =
            (all_chunk_events h srv ch name out rs, Running)"
          "chained C L (off + C) rs"
        by auto
      from le have k: "min C (L - off) = C" by simp
      have "file_loop h srv ch name out C L (Suc fuel) off =
            (all_chunk_events h srv ch name out ((off, C) # rs), Running)"
        by (simp only: step k rs(1) fst_conv snd_conv all_chunk_events_simps)
      moreover have "chained C L off ((off, C) # rs)"
        using k C(1) rs(2) by simp
      ultimately show ?thesis by blast
    next
      case gt: False
      then have k: "min C (L - off) = L - off" by simp
      from gt have "file_loop h srv ch name out C L fuel (off + C) = ([], Running)"
        by (intro file_loop_done) simp
      then have "file_loop h srv ch name out C L (Suc fuel) off =
            (all_chunk_events h srv ch name out [(off, L - off)], Running)"
        by (simp only: step k fst_conv snd_conv all_chunk_events_simps append_Nil2)
      moreover have "chained C L off [(off, L - off)]"
        using k True by simp
      ultimately show ?thesis by blast
    qed
  qed
qed

lemma request_of_chunk_write:
  "0 < sz \<Longrightarrow> request_of (CWrite ch (object_rep (Filemsg off k) sz @ rest)) = Some (off, k)"
  by (cases sz) (simp_all add: request_of_def object_rep_def upt_conv_Cons del: upt_Suc)

lemma request_of_other [simp]:
  "request_of (CRead ch n) = None"
  "request_of (Ofs_write path bs) = None"
  "request_of (Ofs_open path) = None"
  "request_of (Ofs_close path) = None"
  "request_of (Ofs_row path a b d) = None"
  "request_of (Cout l) = None"
  "request_of (Exec as) = None"
  "request_of (Close ch) = None"
  by (simp_all add: request_of_def)

lemma file_requests_append: "file_requests (xs @ ys) = file_requests xs @ file_requests ys"
  by (simp add: file_requests_def List.map_filter_def)

lemma file_requests_chunk_events:
  "0 < sizeof_filemsg h \<Longrightarrow> file_requests (chunk_events h srv ch name out off k) = [(off, k)]"
  by (simp add: file_requests_def List.map_filter_def chunk_events_def request_of_chunk_write)

lemma file_requests_Nil [simp]: "file_requests [] = []"
  by (simp add: file_requests_def List.map_filter_def)

lemma file_requests_chunks:
  "0 < sizeof_filemsg h \<Longrightarrow>
   file_requests (all_chunk_events h srv ch name out rs) = rs"
  by (induction rs) (auto simp: file_requests_append file_requests_chunk_events)

lemma written_append: "written path (xs @ ys) = written path xs @ written path ys"
  by (simp add: written_def)

lemma written_chunk_events:
  "written out (chunk_events h srv ch name out off k) =
     take (nat k) (cread_into (replicate (nat k) Indet) (chunk_reply srv off k) (nat k))"
  by (simp add: written_def written_to_def chunk_events_def)

lemma served_chunk:
  assumes "0 \<le> off" "0 \<le> k" "off + k \<le> int (length f)"
  shows "take (nat k) (cread_into (replicate (nat k) Indet) (serve_chunk f off k) (nat k)) =
     map Chr (take (nat k) (drop (nat off) f))"
proof -
  have "length (take (nat k) (drop (nat off) f)) = nat k"
    using assms by simp
  then show ?thesis
    by (simp add: cread_into_def serve_chunk_def)
qed

lemma written_chunks:
  assumes srv: "chunk_reply srv = serve_chunk f"
  shows "chained C (int (length f)) off rs \<Longrightarrow> 0 \<le> off \<Longrightarrow>
    written out (all_chunk_events h srv ch name out rs) =
      map Chr (drop (nat off) f)"
proof (induction rs arbitrary: off)
  case Nil
  then show ?case by (simp add: written_def)
next
  case (Cons r rs)
  obtain off' k where r: "r = (off', k)" by (cases r)
  from Cons.prems r have k: "off' = off" "0 < k" "k \<le> int (length f) - off"
    and rest: "chained C (int (length f)) (off + k) rs"
    by auto
  have "written out (all_chunk_events h srv ch name out rs) =
      map Chr (drop (nat (off + k)) f)"
    using rest Cons.prems(2) k(2) by (intro Cons.IH) simp_all
  moreover have "written out (chunk_events h srv ch name out off k) =
      map Chr (take (nat k) (drop (nat off) f))"
    using k Cons.prems(2) by (simp add: written_chunk_events srv served_chunk)
  moreover have "nat (off + k) = nat k + nat off"
    using k Cons.prems(2) by simp
  ultimately show ?case
    by (simp add: r k(1) written_append flip: map_append drop_drop)
qed

subsection \<open>The example of the specification\<close>

lemma example_three_chunks:
  "file_loop lp64 example_peer Control_chan ''a'' ''received/a'' 1024 2500 3 0 =
     (all_chunk_events lp64 example_peer Control_chan ''a'' ''received/a''
        [(0, 1024), (1024, 1024), (2048, 452)], Running)"
proof -
  have fits: "int (sizeof_filemsg lp64 + (length ''a'' + 1)) < 2 ^ 31"
    by (simp add: lp64_def)
  have s: "file_loop lp64 example_peer Control_chan ''a'' ''received/a'' 1024 2500 (Suc fuel) off =
     (chunk_events lp64 example_peer Control_chan ''a'' ''received/a'' off (min 1024 (2500 - off))
        @ fst (file_loop lp64 example_peer Control_chan ''a'' ''received/a'' 1024 2500 fuel (off + 1024)),
      snd (file_loop lp64 example_peer Control_chan ''a'' ''received/a'' 1024 2500 fuel (off + 1024)))"
    if "0 \<le> off" "off < 2500" for fuel off
    using that fits by (intro file_loop_step) (simp_all add: INT64_MAX_def)
  have "(3::nat) = Suc (Suc (Suc 0))" by simp
  then show ?thesis
    by (simp only: s file_loop_done) (simp add: s file_loop_done)
qed

subsection \<open>The file loop on every input\<close>

lemma chunk_length_bounds:
  assumes "0 < C" "C < 2 ^ 31" "off < L"
  shows "0 < chunk_length C L off \<and> chunk_length C L off \<le> C"
proof (cases "off + C > L")
  case True
  have "to_int32 (L - off) = L - off"
    using True assms by (intro to_int32_id) simp_all
  with True assms show ?thesis by (simp add: chunk_length_def)
next
  case False
  with assms show ?thesis by (simp add: chunk_length_def)
qed

lemma file_iteration_cases:
  fixes h srv ch name out C L off
  defines "k \<equiv> chunk_length C L off"
  defines "it \<equiv> file_iteration h srv ch name out C L off"
  obtains
    (overflow) "add64 off C = None" "it = ([], Aborted Signed_overflow)"
  | (no_request) f where "it = ([], Aborted f)"
  | (bad_length) bs where "it = ([CWrite ch bs], Aborted Bad_array_length)"
      "file_request h ch name off k = ([CWrite ch bs], Running)" "k < 0"
  | (full) bs d where "it = ([CWrite ch bs, CRead ch (nat k), Ofs_write out d], Running)"
      "file_request h ch name off k = ([CWrite ch bs], Running)" "0 \<le> k"
proof (cases "add64 off C")
  case None
  then have "it = ([], Aborted Signed_overflow)"
    by (simp add: it_def file_iteration_def)
  with None show ?thesis by (rule overflow)
next
  case (Some reach)
  then have reach: "reach = off + C" by (auto simp: add64_def split: if_splits)
  have it: "it = then_run (file_request h ch name off k)
            (case new_char k of
               None \<Rightarrow> ([], Aborted Bad_array_length)
             | Some buf4 \<Rightarrow>
                 ([CRead ch (nat k),
                   Ofs_write out
                     (take (nat k) (cread_into buf4 (chunk_reply srv off k) (nat k)))],
                  Running))"
    unfolding it_def k_def file_iteration_def chunk_length_def Let_def
    by (simp add: Some reach)
  from file_request_shape [of h ch name off k] show ?thesis
  proof (elim disjE exE)
    fix f assume "file_request h ch name off k = ([], Aborted f)"
    then have "it = ([], Aborted f)" by (simp add: it then_run_stop)
    then show ?thesis by (rule no_request)
  next
    fix bs assume fr: "file_request h ch name off k = ([CWrite ch bs], Running)"
    show ?thesis
    proof (cases "k < 0")
      case True
      then have "it = ([CWrite ch bs], Aborted Bad_array_length)"
        by (simp add: it fr new_char_def)
      then show ?thesis using fr True by (rule bad_length)
    next
      case False
      then have "it = ([CWrite ch bs, CRead ch (nat k),
          Ofs_write out (take (nat k)
            (cread_into (replicate (nat k) Indet) (chunk_reply srv off k) (nat k)))], Running)"
        by (simp add: it fr new_char_def)
      then show ?thesis using fr False by (intro full) simp_all
    qed
  qed
qed

lemma file_loop_events:
  "ev \<in> set (fst (file_loop h srv ch name out C L fuel off)) \<Longrightarrow>
   \<exists>off'. off' < L \<and> ev \<in> set (fst (file_iteration h srv ch name out C L off'))"
proof (induction fuel arbitrary: off)
  case 0
  then show ?case by (simp split: if_splits)
next
  case (Suc fuel)
  show ?case
  proof (cases "off < L")
    case False
    with Suc.prems show ?thesis by simp
  next
    case True
    with Suc.prems have "ev \<in> set (fst (file_iteration h srv ch name out C L off)) \<or>
        (\<exists>off'. add64 off C = Some off' \<and>
           ev \<in> set (fst (file_loop h srv ch name out C L fuel off')))"
      by (auto simp: fst_then_run split: if_splits option.splits)
    then show ?thesis using True Suc.IH by blast
  qed
qed

text \<open>
  Where \<open>offset + length\<close> of line 161 leaves the 64 bits, C++ gives the sum no meaning:
  the iteration is a fault, before any request is written.
\<close>

lemma file_iteration_overflow:
  "INT64_MAX < off + C \<Longrightarrow>
   file_iteration h srv ch name out C L off = ([], Aborted Signed_overflow)"
  by (simp add: file_iteration_def add64_def)

lemma file_loop_overflow:
  "off < L \<Longrightarrow> INT64_MAX < off + C \<Longrightarrow>
   file_loop h srv ch name out C L (Suc fuel) off = ([], Aborted Signed_overflow)"
  by (simp add: file_iteration_overflow then_run_stop)

subsection \<open>The encoding of a FILE request\<close>

lemma atoi_1024: "atoi ''1024'' = 1024"
  by (simp add: atoi_def split_sign_def isspace_def isdigit_def decimal_value_def to_int32_def
      INT64_MAX_def INT64_MIN_def)

lemma atoi_0: "atoi ''0'' = 0"
  by (simp add: atoi_def split_sign_def isspace_def isdigit_def decimal_value_def to_int32_def
      INT64_MAX_def INT64_MIN_def)

lemma example_args:
  "parse_options lp64 [Opt CHR ''f'' ''a'', Opt CHR ''m'' ''1024''] =
     \<lparr>p = - 1, t = Finite (- 1), c = False, e = 1, filename = ''a'', buffercapacity = 1024\<rparr>"
  by (simp add: parse_options_def initial_args_def atoi_1024 NUL_def)

lemma set_option_filename:
  "NUL \<notin> set (filename a) \<Longrightarrow> NUL \<notin> set (filename (set_option h a x))"
  by (cases x) (auto dest: set_takeWhileD)

lemma foldl_set_option_filename:
  "NUL \<notin> set (filename a) \<Longrightarrow> NUL \<notin> set (filename (foldl (set_option h) a opts))"
  by (induction opts arbitrary: a) (simp_all add: set_option_filename del: set_option.simps)

lemma parse_options_filename: "NUL \<notin> set (filename (parse_options h opts))"
  unfolding parse_options_def
  by (rule foldl_set_option_filename) (simp add: initial_args_def)

lemma file_iteration_writes:
  assumes "CWrite ch' bs \<in> set (fst (file_iteration h srv ch name out C L off))"
  shows "\<exists>k st. file_request h ch name off k = ([CWrite ch' bs], st)"
  using assms
  by (cases rule: file_iteration_cases [of off C h srv ch name out L]) auto

lemma request_file_writes:
  assumes "CWrite ch' bs \<in> set (fst (request_file h srv ch a fuel))"
  shows "\<exists>off k st. file_request h ch (filename a) off k = ([CWrite ch' bs], st)"
proof -
  let ?out = "''received/'' @ filename a"
  from assms have "CWrite ch' bs \<in> set (fst (file_request h ch (filename a) 0 0)) \<or>
      CWrite ch' bs \<in> set (fst (file_loop h srv ch (filename a) ?out (buffercapacity a)
        (filelen_reply srv) fuel 0))"
    by (auto simp: request_file_def fst_then_run snd_then_run Let_def split: if_splits)
  then show ?thesis
  proof
    assume "CWrite ch' bs \<in> set (fst (file_request h ch (filename a) 0 0))"
    with file_request_shape [of h ch "filename a" 0 0]
    have "file_request h ch (filename a) 0 0 = ([CWrite ch' bs], Running)" by auto
    then show ?thesis by blast
  next
    assume "CWrite ch' bs \<in> set (fst (file_loop h srv ch (filename a) ?out (buffercapacity a)
        (filelen_reply srv) fuel 0))"
    from file_loop_events [OF this] file_iteration_writes show ?thesis by blast
  qed
qed

text \<open>
  Claim C3. Every message the file transfer writes, the length probe and each chunk
  request alike, is the bytes of the \<^verbatim>\<open>filemsg\<close> struct, then the file name, then
  one NUL: \<^verbatim>\<open>sizeof(filemsg)\<close> plus the length of the name plus 1 bytes. The file
  name is the one the option loop stored.
\<close>

theorem file_request_encoding:
  assumes "CWrite ch' bs \<in> set (fst (request_file h srv ch (parse_options h opts) fuel))"
  shows "(\<exists>offset chunk.
            bs = object_rep (Filemsg offset chunk) (sizeof_filemsg h)
                   @ map Chr (filename (parse_options h opts)) @ [Chr NUL]) \<and>
         length bs = sizeof_filemsg h + length (filename (parse_options h opts)) + 1"
proof -
  from request_file_writes [OF assms] obtain off k st
    where "file_request h ch (filename (parse_options h opts)) off k = ([CWrite ch' bs], st)"
    by blast
  with parse_options_filename [of h opts]
  have "bs = object_rep (Filemsg off k) (sizeof_filemsg h)
           @ map Chr (filename (parse_options h opts)) @ [Chr NUL]"
    by (rule file_request_plain)
  then show ?thesis by auto
qed

text \<open>The transfer of the 2500 letters with capacity 1024, as a run.\<close>

lemma example_transfer:
  "request_file lp64 example_peer Control_chan
     \<lparr>p = - 1, t = Finite (- 1), c = False, e = 1, filename = ''a'', buffercapacity = 1024\<rparr> 3 =
   (CWrite Control_chan (object_rep (Filemsg 0 0) 24 @ [Chr CHR ''a'', Chr NUL])
      # CRead Control_chan 8 # Cout (File_length ''a'' 2500) # Ofs_open ''received/a''
      # all_chunk_events lp64 example_peer Control_chan ''a'' ''received/a''
          [(0, 1024), (1024, 1024), (2048, 452)]
      @ [Ofs_close ''received/a''],
    Running)"
proof -
  have fits: "int (sizeof_filemsg lp64 + (length ''a'' + 1)) < 2 ^ 31"
    by (simp add: lp64_def)
  have probe: "file_request lp64 Control_chan ''a'' 0 0 =
      ([CWrite Control_chan (object_rep (Filemsg 0 0) 24 @ [Chr CHR ''a'', Chr NUL])], Running)"
    by (simp add: file_request_fits [OF fits] padded_name_def NUL_def) (simp add: lp64_def)
  have peer: "filelen_reply example_peer = 2500" "can_open example_peer path" for path
    by (simp_all add: example_peer_def)
  show ?thesis
    by (simp add: request_file_def probe example_three_chunks sizeof_int64_def peer Let_def)
qed

theorem file_request_encoding_witness:
  "CWrite Control_chan (object_rep (Filemsg 2048 452) 24 @ [Chr CHR ''a'', Chr NUL])
     \<in> set (fst (request_file lp64 example_peer Control_chan
                (parse_options lp64 [Opt CHR ''f'' ''a'', Opt CHR ''m'' ''1024'']) 3)) \<and>
   (\<exists>offset chunk.
       object_rep (Filemsg 2048 452) 24 @ [Chr CHR ''a'', Chr NUL] =
         object_rep (Filemsg offset chunk) (sizeof_filemsg lp64)
           @ map Chr (filename (parse_options lp64 [Opt CHR ''f'' ''a'', Opt CHR ''m'' ''1024'']))
           @ [Chr NUL]) \<and>
   length (object_rep (Filemsg 2048 452) 24 @ [Chr CHR ''a'', Chr NUL]) =
     sizeof_filemsg lp64
       + length (filename (parse_options lp64 [Opt CHR ''f'' ''a'', Opt CHR ''m'' ''1024''])) + 1"
proof -
  have mem: "CWrite Control_chan (object_rep (Filemsg 2048 452) 24 @ [Chr CHR ''a'', Chr NUL])
     \<in> set (fst (request_file lp64 example_peer Control_chan
                (parse_options lp64 [Opt CHR ''f'' ''a'', Opt CHR ''m'' ''1024'']) 3))"
    by (simp add: example_args example_transfer chunk_events_def padded_name_def NUL_def)
       (simp add: lp64_def)
  from file_request_encoding [OF mem] mem show ?thesis by simp
qed

subsection \<open>The probe and the chunks\<close>

lemma file_requests_Cons:
  "file_requests (ev # es) =
     (case request_of ev of None \<Rightarrow> file_requests es | Some r \<Rightarrow> r # file_requests es)"
  unfolding file_requests_def by simp

lemma chained_sum: "chained C L off rs \<Longrightarrow> off + sum_list (map snd rs) = L"
proof (induction rs arbitrary: off)
  case Nil
  then show ?case by simp
next
  case (Cons r rs)
  obtain off' k where r: "r = (off', k)" by (cases r)
  from Cons.prems r have "chained C L (off + k) rs" by auto
  from Cons.IH [OF this] r show ?case by simp
qed

lemma chained_lengths:
  "chained C L off rs \<Longrightarrow> i < length rs \<Longrightarrow>
   1 \<le> snd (rs ! i) \<and> off + sum_list (map snd (take i rs)) < L"
proof (induction rs arbitrary: off i)
  case Nil
  then show ?case by simp
next
  case (Cons r rs)
  obtain off' k where r: "r = (off', k)" by (cases r)
  from Cons.prems(1) r have k: "0 < k" "k \<le> L - off" "chained C L (off + k) rs"
    by auto
  show ?case
  proof (cases i)
    case 0
    with k r show ?thesis by simp
  next
    case (Suc j)
    with Cons.prems(2) have "j < length rs" by simp
    from Cons.IH [OF k(3) this] Suc r show ?thesis by (simp add: algebra_simps)
  qed
qed

lemma request_file_unfold:
  assumes "filename a \<noteq> []" and "can_open srv out"
    and "int (sizeof_filemsg h + (length (filename a) + 1)) < 2 ^ 31"
    and out: "out = ''received/'' @ filename a"
  shows "request_file h srv ch a fuel =
    (CWrite ch (object_rep (Filemsg 0 0) (sizeof_filemsg h) @ padded_name (filename a))
       # CRead ch sizeof_int64 # Cout (File_length (filename a) (filelen_reply srv))
       # Ofs_open out
       # fst (then_run
              (file_loop h srv ch (filename a) out (buffercapacity a) (filelen_reply srv) fuel 0)
              ([Ofs_close out], Running)),
     snd (then_run
            (file_loop h srv ch (filename a) out (buffercapacity a) (filelen_reply srv) fuel 0)
            ([Ofs_close out], Running)))"
  using assms(1,2) unfolding out
  by (simp add: request_file_def file_request_fits [OF assms(3)] Let_def)

text \<open>
  Claim C4. In a file transfer with a positive capacity the FILE requests are the probe
  \<^verbatim>\<open>FILE(0, 0)\<close> and then the chunk requests of the loop, each for at least one
  byte. A chunk is requested only while the bytes retrieved so far are fewer than the
  length the server reported, and the loop ends with exactly that many bytes retrieved
  (none when the reported length is negative).
\<close>

theorem only_the_probe_is_empty:
  assumes "filename a \<noteq> []" and "can_open srv (''received/'' @ filename a)"
    and "0 < buffercapacity a" and "buffercapacity a < 2 ^ 31"
    and "filelen_reply srv + buffercapacity a \<le> INT64_MAX"
    and "0 < sizeof_filemsg h"
    and "int (sizeof_filemsg h + (length (filename a) + 1)) < 2 ^ 31"
    and "filelen_reply srv \<le> int fuel * buffercapacity a"
  shows "snd (request_file h srv ch a fuel) = Running \<and>
    (\<exists>chunks. file_requests (fst (request_file h srv ch a fuel)) = (0, 0) # chunks \<and>
       (\<forall>i < length chunks.
           1 \<le> snd (chunks ! i) \<and>
           sum_list (map snd (take i chunks)) < filelen_reply srv) \<and>
       sum_list (map snd chunks) = max 0 (filelen_reply srv))"
proof -
  define out where "out = ''received/'' @ filename a"
  let ?L = "filelen_reply srv" and ?C = "buffercapacity a"
  have co: "can_open srv out" using assms(2) by (simp only: out_def)
  have "\<exists>rs. file_loop h srv ch (filename a) out ?C ?L fuel 0 =
          (all_chunk_events h srv ch (filename a) out rs, Running) \<and>
        (\<forall>i < length rs. 1 \<le> snd (rs ! i) \<and> sum_list (map snd (take i rs)) < ?L) \<and>
        sum_list (map snd rs) = max 0 ?L"
  proof (cases "0 \<le> ?L")
    case True
    with file_loop_chained [where off = 0 and fuel = fuel and L = ?L and C = ?C and h = h
        and name = "filename a" and srv = srv and ch = ch and out = out]
      assms(3,4,5,7,8)
    obtain rs where rs: "file_loop h srv ch (filename a) out ?C ?L fuel 0 =
          (all_chunk_events h srv ch (filename a) out rs, Running)" "chained ?C ?L 0 rs"
      by auto
    from chained_lengths [OF rs(2)] chained_sum [OF rs(2)] True rs(1)
    show ?thesis by auto
  next
    case False
    then have "file_loop h srv ch (filename a) out ?C ?L fuel 0 =
        (all_chunk_events h srv ch (filename a) out [], Running)"
      by (simp add: file_loop_done)
    with False show ?thesis by (intro exI [of _ "[]"]) simp
  qed
  then obtain rs where loop: "file_loop h srv ch (filename a) out ?C ?L fuel 0 =
          (all_chunk_events h srv ch (filename a) out rs, Running)"
    and rs: "\<forall>i < length rs. 1 \<le> snd (rs ! i) \<and> sum_list (map snd (take i rs)) < ?L"
      "sum_list (map snd rs) = max 0 ?L"
    by blast
  have run: "request_file h srv ch a fuel =
    (CWrite ch (object_rep (Filemsg 0 0) (sizeof_filemsg h) @ padded_name (filename a))
       # CRead ch sizeof_int64 # Cout (File_length (filename a) ?L) # Ofs_open out
       # all_chunk_events h srv ch (filename a) out rs @ [Ofs_close out], Running)"
    unfolding request_file_unfold [OF assms(1) co assms(7) out_def, of ch fuel] loop
    by simp
  have "file_requests (fst (request_file h srv ch a fuel)) = (0, 0) # rs"
    using assms(6)
    by (simp add: run file_requests_append file_requests_chunks file_requests_Cons
        request_of_chunk_write)
  with rs run show ?thesis by auto
qed

theorem only_the_probe_is_empty_witness:
  "filename \<lparr>p = - 1, t = Finite (- 1), c = False, e = 1, filename = ''a'', buffercapacity = 1024\<rparr> \<noteq> [] \<and>
   can_open example_peer (''received/'' @ ''a'') \<and>
   (0::int) < 1024 \<and> (1024::int) < 2 ^ 31 \<and>
   filelen_reply example_peer + 1024 \<le> INT64_MAX \<and>
   0 < sizeof_filemsg lp64 \<and>
   int (sizeof_filemsg lp64 + (length ''a'' + 1)) < 2 ^ 31 \<and>
   filelen_reply example_peer \<le> int 3 * 1024 \<and>
   snd (request_file lp64 example_peer Control_chan
          \<lparr>p = - 1, t = Finite (- 1), c = False, e = 1, filename = ''a'', buffercapacity = 1024\<rparr> 3)
     = Running \<and>
   file_requests (fst (request_file lp64 example_peer Control_chan
          \<lparr>p = - 1, t = Finite (- 1), c = False, e = 1, filename = ''a'', buffercapacity = 1024\<rparr> 3))
     = [(0, 0), (0, 1024), (1024, 1024), (2048, 452)] \<and>
   (\<exists>chunks. file_requests (fst (request_file lp64 example_peer Control_chan
          \<lparr>p = - 1, t = Finite (- 1), c = False, e = 1, filename = ''a'', buffercapacity = 1024\<rparr> 3))
        = (0, 0) # chunks \<and>
      (\<forall>i < length chunks.
          1 \<le> snd (chunks ! i) \<and>
          sum_list (map snd (take i chunks)) < filelen_reply example_peer) \<and>
      sum_list (map snd chunks) = max 0 (filelen_reply example_peer))"
proof -
  let ?a = "\<lparr>p = - 1, t = Finite (- 1), c = False, e = 1, filename = ''a'', buffercapacity = 1024\<rparr>"
  have hyps: "filename ?a \<noteq> []" "can_open example_peer (''received/'' @ filename ?a)"
    "0 < buffercapacity ?a" "buffercapacity ?a < 2 ^ 31"
    "filelen_reply example_peer + buffercapacity ?a \<le> INT64_MAX"
    "0 < sizeof_filemsg lp64"
    "int (sizeof_filemsg lp64 + (length (filename ?a) + 1)) < 2 ^ 31"
    "filelen_reply example_peer \<le> int 3 * buffercapacity ?a"
    by (simp_all add: example_peer_def lp64_def INT64_MAX_def)
  have reqs: "file_requests (fst (request_file lp64 example_peer Control_chan ?a 3))
     = [(0, 0), (0, 1024), (1024, 1024), (2048, 452)]"
    by (simp add: example_transfer file_requests_Cons file_requests_append
        file_requests_chunk_events request_of_chunk_write hyps(6))
  from only_the_probe_is_empty [OF hyps, of Control_chan] reqs hyps
  show ?thesis by simp
qed

subsection \<open>The chunks of a file transfer\<close>

text \<open>
  Claim C1. In a file transfer (lines 133 to 186) with a capacity \<open>C > 0\<close> and a file of
  length \<open>L\<close>, the FILE requests the client writes are the probe \<^verbatim>\<open>FILE(0, 0)\<close> and then the
  chunk requests: the first is at offset 0, each asks for \<open>min C (L - offset)\<close> bytes, each
  starts where the one before it ended, and the last one ends at \<open>L\<close>. The transfer comes
  to its end, and with a server that sends the bytes it is asked for, the output file
  \<^verbatim>\<open>received/\<close>\<open>filename\<close> receives the bytes of the file, in order. \<open>C\<close> is an \<^verbatim>\<open>int\<close>,
  \<open>L + C\<close> is within 64 bits, the request fits its buffer, the output file can be opened,
  and \<open>fuel\<close> iterations of \<open>C\<close> bytes cover \<open>L\<close>.
\<close>

theorem file_chunks_complete:
  assumes "filename a \<noteq> []" and "can_open srv (''received/'' @ filename a)"
    and "0 < buffercapacity a" and "buffercapacity a < 2 ^ 31"
    and "filelen_reply srv + buffercapacity a \<le> INT64_MAX"
    and "0 < sizeof_filemsg h"
    and "int (sizeof_filemsg h + (length (filename a) + 1)) < 2 ^ 31"
    and "filelen_reply srv \<le> int fuel * buffercapacity a"
    and "chunk_reply srv = serve_chunk file" and "filelen_reply srv = int (length file)"
  shows "snd (request_file h srv ch a fuel) = Running \<and>
    hd (file_requests (fst (request_file h srv ch a fuel))) = (0, 0) \<and>
    length (file_requests (fst (request_file h srv ch a fuel))) \<noteq> 0 \<and>
    chained (buffercapacity a) (filelen_reply srv) 0
      (tl (file_requests (fst (request_file h srv ch a fuel)))) \<and>
    written (''received/'' @ filename a) (fst (request_file h srv ch a fuel)) = map Chr file"
proof -
  define out where "out = ''received/'' @ filename a"
  let ?L = "filelen_reply srv" and ?C = "buffercapacity a"
  have co: "can_open srv out" using assms(2) by (simp only: out_def)
  from assms(10) have "0 \<le> ?L" by simp
  with file_loop_chained [where off = 0 and fuel = fuel and L = ?L and C = ?C and h = h
      and name = "filename a" and srv = srv and ch = ch and out = out]
    assms(3,4,5,7,8)
  obtain rs where loop: "file_loop h srv ch (filename a) out ?C ?L fuel 0 =
        (all_chunk_events h srv ch (filename a) out rs, Running)"
    and rs: "chained ?C ?L 0 rs"
    by auto
  have run: "request_file h srv ch a fuel =
    (CWrite ch (object_rep (Filemsg 0 0) (sizeof_filemsg h) @ padded_name (filename a))
       # CRead ch sizeof_int64 # Cout (File_length (filename a) ?L) # Ofs_open out
       # all_chunk_events h srv ch (filename a) out rs @ [Ofs_close out], Running)"
    unfolding request_file_unfold [OF assms(1) co assms(7) out_def, of ch fuel] loop
    by simp
  have reqs: "file_requests (fst (request_file h srv ch a fuel)) = (0, 0) # rs"
    using assms(6)
    by (simp add: run file_requests_append file_requests_chunks file_requests_Cons
        request_of_chunk_write)
  have "written out (all_chunk_events h srv ch (filename a) out rs) =
      map Chr (drop (nat 0) file)"
    using assms(9) rs unfolding assms(10) by (rule written_chunks) simp
  moreover have "written out (fst (request_file h srv ch a fuel)) =
      written out (all_chunk_events h srv ch (filename a) out rs)"
    unfolding run by (simp add: written_def written_to_def)
  ultimately have "written out (fst (request_file h srv ch a fuel)) = map Chr file"
    by simp
  then have bytes: "written (''received/'' @ filename a) (fst (request_file h srv ch a fuel)) =
      map Chr file"
    unfolding out_def .
  have "snd (request_file h srv ch a fuel) = Running"
    unfolding run by simp
  with bytes rs show ?thesis by (simp add: reqs)
qed

text \<open>
  Capacity 1024 and length 2500: after the probe the requests are (0, 1024), (1024, 1024),
  (2048, 452).
\<close>

theorem file_chunks_complete_witness:
  "filename \<lparr>p = - 1, t = Finite (- 1), c = False, e = 1, filename = ''a'', buffercapacity = 1024\<rparr> \<noteq> [] \<and>
   can_open example_peer (''received/'' @ ''a'') \<and>
   (0::int) < 1024 \<and> (1024::int) < 2 ^ 31 \<and>
   filelen_reply example_peer + 1024 \<le> INT64_MAX \<and>
   0 < sizeof_filemsg lp64 \<and>
   int (sizeof_filemsg lp64 + (length ''a'' + 1)) < 2 ^ 31 \<and>
   filelen_reply example_peer \<le> int 3 * 1024 \<and>
   chunk_reply example_peer = serve_chunk letters \<and>
   filelen_reply example_peer = int (length letters) \<and>
   snd (request_file lp64 example_peer Control_chan
          \<lparr>p = - 1, t = Finite (- 1), c = False, e = 1, filename = ''a'', buffercapacity = 1024\<rparr> 3)
     = Running \<and>
   file_requests (fst (request_file lp64 example_peer Control_chan
          \<lparr>p = - 1, t = Finite (- 1), c = False, e = 1, filename = ''a'', buffercapacity = 1024\<rparr> 3))
     = [(0, 0), (0, 1024), (1024, 1024), (2048, 452)] \<and>
   chained 1024 (filelen_reply example_peer) 0 [(0, 1024), (1024, 1024), (2048, 452)] \<and>
   written ''received/a'' (fst (request_file lp64 example_peer Control_chan
          \<lparr>p = - 1, t = Finite (- 1), c = False, e = 1, filename = ''a'', buffercapacity = 1024\<rparr> 3))
     = map Chr letters"
proof -
  let ?a = "\<lparr>p = - 1, t = Finite (- 1), c = False, e = 1, filename = ''a'', buffercapacity = 1024\<rparr>"
  have hyps: "filename ?a \<noteq> []" "can_open example_peer (''received/'' @ filename ?a)"
    "0 < buffercapacity ?a" "buffercapacity ?a < 2 ^ 31"
    "filelen_reply example_peer + buffercapacity ?a \<le> INT64_MAX"
    "0 < sizeof_filemsg lp64"
    "int (sizeof_filemsg lp64 + (length (filename ?a) + 1)) < 2 ^ 31"
    "filelen_reply example_peer \<le> int 3 * buffercapacity ?a"
    "chunk_reply example_peer = serve_chunk letters"
    "filelen_reply example_peer = int (length letters)"
    by (simp_all add: example_peer_def lp64_def INT64_MAX_def letters_def)
  have reqs: "file_requests (fst (request_file lp64 example_peer Control_chan ?a 3))
     = [(0, 0), (0, 1024), (1024, 1024), (2048, 452)]"
    by (simp add: example_transfer file_requests_Cons file_requests_append
        file_requests_chunk_events request_of_chunk_write hyps(6))
  from file_chunks_complete [OF hyps, of Control_chan] reqs hyps
  show ?thesis by simp
qed

subsection \<open>The probe of the example\<close>

lemma probe_a:
  "file_request lp64 Control_chan ''a'' 0 0 =
     ([CWrite Control_chan (object_rep (Filemsg 0 0) 24 @ [Chr CHR ''a'', Chr NUL])], Running)"
proof -
  have fits: "int (sizeof_filemsg lp64 + (length ''a'' + 1)) < 2 ^ 31"
    by (simp add: lp64_def)
  show ?thesis
    by (simp add: file_request_fits [OF fits] padded_name_def NUL_def) (simp add: lp64_def)
qed

lemma to_string_256: "to_string 256 = ''256''"
  by (simp add: to_string_def digits_of.simps)

subsection \<open>Leaving main early\<close>

lemma to_string_1: "to_string 1 = ''1''"
  by (simp add: to_string_def digits_of.simps)

lemma atoi_1: "atoi ''1'' = 1"
  by (simp add: atoi_def split_sign_def isspace_def isdigit_def decimal_value_def to_int32_def
      INT64_MAX_def INT64_MIN_def)

text \<open>
  Claim C6: a QUIT message on every way out of \<^verbatim>\<open>main\<close>, the early returns
  included. The end of \<^verbatim>\<open>main\<close> writes it, but the two \<^verbatim>\<open>return 1\<close> of lines 97
  and 155 leave without it: with \<^verbatim>\<open>-p 1\<close>, and with \<^verbatim>\<open>-f a\<close>, when the output
  file cannot be opened, \<^verbatim>\<open>main\<close> returns 1, the control channel is destroyed, and
  no QUIT was written.
\<close>

theorem early_return_without_quit:
  "main lp64 read_only_peer [Opt CHR ''p'' ''1''] 0 =
     ([Exec [''./server'', ''-m'', ''256''],
       Cout (Could_not_open ''received/x1.csv''),
       Close Control_chan],
      Returned 1) \<and>
   main lp64 read_only_peer [Opt CHR ''f'' ''a''] 0 =
     ([Exec [''./server'', ''-m'', ''256''],
       CWrite Control_chan (object_rep (Filemsg 0 0) 24 @ [Chr CHR ''a'', Chr NUL]),
       CRead Control_chan 8,
       Cout (File_length ''a'' 2500),
       Cout (Could_not_open ''received/a''),
       Close Control_chan],
      Returned 1)"
proof -
  have peer: "\<not> can_open read_only_peer path" "filelen_reply read_only_peer = 2500" for path
    by (simp_all add: read_only_peer_def example_peer_def)
  have a1: "parse_options lp64 [Opt CHR ''p'' ''1''] =
      \<lparr>p = 1, t = Finite (- 1), c = False, e = 1, filename = [], buffercapacity = 256\<rparr>"
    by (simp add: parse_options_def initial_args_def atoi_1 lp64_def)
  have a2: "parse_options lp64 [Opt CHR ''f'' ''a''] =
      \<lparr>p = - 1, t = Finite (- 1), c = False, e = 1, filename = ''a'', buffercapacity = 256\<rparr>"
    by (simp add: parse_options_def initial_args_def NUL_def lp64_def)
  have "main lp64 read_only_peer [Opt CHR ''p'' ''1''] 0 =
     ([Exec [''./server'', ''-m'', ''256''],
       Cout (Could_not_open ''received/x1.csv''),
       Close Control_chan],
      Returned 1)"
    unfolding main_def a1 client_def
    by (simp add: request_new_channel_def data_points_def request_points_def peer to_string_1
        then_run_stop leave_main_def run_server_def to_string_256 Let_def)
  moreover have "main lp64 read_only_peer [Opt CHR ''f'' ''a''] 0 =
     ([Exec [''./server'', ''-m'', ''256''],
       CWrite Control_chan (object_rep (Filemsg 0 0) 24 @ [Chr CHR ''a'', Chr NUL]),
       CRead Control_chan 8,
       Cout (File_length ''a'' 2500),
       Cout (Could_not_open ''received/a''),
       Close Control_chan],
      Returned 1)"
    unfolding main_def a2 client_def
    by (simp add: request_new_channel_def data_points_def request_file_def probe_a peer
        then_run_stop leave_main_def run_server_def to_string_256 sizeof_int64_def Let_def)
  ultimately show ?thesis by (rule conjI)
qed

subsection \<open>The capacity\<close>

lemma buffercapacity_set_option:
  "buffercapacity (set_option h a (Opt ch s)) =
     (if ch = CHR ''m'' then atoi s else buffercapacity a)"
  by simp

lemma buffercapacity_foldl:
  "buffercapacity (foldl (set_option h) a opts) =
     (case capacity_option opts of None \<Rightarrow> buffercapacity a | Some s \<Rightarrow> atoi s)"
proof (induction opts arbitrary: a)
  case Nil
  then show ?case by simp
next
  case (Cons x opts)
  obtain ch s where x: "x = Opt ch s" by (cases x)
  show ?case
    unfolding x foldl_Cons Cons.IH buffercapacity_set_option
    by (simp split: option.split)
qed

lemma to_int32_range: "- (2 ^ 31) \<le> to_int32 k \<and> to_int32 k < 2 ^ 31"
  using signed_take_bit_int_greater_eq_minus_exp [of 31 k]
    signed_take_bit_int_less_exp [of 31 k]
  by (simp add: to_int32_def)

lemma atoi_range: "atoi s < 2 ^ 31"
proof -
  have "to_int32 k < 2 ^ 31" for k
    using to_int32_range [of k] by simp
  then show ?thesis
    by (simp add: atoi_def Let_def split: prod.split)
qed

lemma take_struct_request:
  "request_of (CWrite ch (take n (object_rep (Filemsg off k) sz @ Chr x # rest))) = None \<or>
   request_of (CWrite ch (take n (object_rep (Filemsg off k) sz @ Chr x # rest))) = Some (off, k)"
proof (cases sz)
  case 0
  then show ?thesis by (cases n) (simp_all add: request_of_def object_rep_def)
next
  case (Suc m)
  then show ?thesis
    by (cases n) (simp_all add: request_of_def object_rep_def upt_conv_Cons del: upt_Suc)
qed

lemma file_request_request_of:
  assumes "file_request h ch name off k = ([CWrite ch' bs], st)"
  shows "request_of (CWrite ch' bs) = None \<or> request_of (CWrite ch' bs) = Some (off, k)"
proof -
  define sz where "sz = sizeof_filemsg h"
  define nm where "nm = takeWhile (\<lambda>ch. ch \<noteq> NUL) name"
  from assms obtain n buf where bs: "ch' = ch"
      "bs = take n (take sz (take sz (object_rep (Filemsg off k) sz) @ drop sz buf)
               @ (map Chr nm @ [Chr NUL]) @ drop (sz + length (map Chr nm @ [Chr NUL]))
                  (take sz (object_rep (Filemsg off k) sz) @ drop sz buf))"
    unfolding file_request_unfold
    by (auto simp: memcpy_def strcpy_def Let_def sz_def nm_def split: option.splits if_splits)
  obtain x rest where "(map Chr nm @ [Chr NUL]) @ drop (sz + length (map Chr nm @ [Chr NUL]))
                  (take sz (object_rep (Filemsg off k) sz) @ drop sz buf) = Chr x # rest"
    by (cases nm) auto
  then have "bs = take n (object_rep (Filemsg off k) sz @ Chr x # rest)"
    by (simp add: bs(2))
  then show ?thesis using take_struct_request [of ch n off k sz x rest] bs(1) by simp
qed

lemma file_requests_member:
  "r \<in> set (file_requests es) \<longleftrightarrow> (\<exists>ev \<in> set es. request_of ev = Some r)"
  unfolding file_requests_def List.map_filter_def by force

lemma atoi_8: "atoi ''8'' = 8"
  by (simp add: atoi_def split_sign_def isspace_def isdigit_def decimal_value_def to_int32_def
      INT64_MAX_def INT64_MIN_def)

lemma to_string_small: "to_string 0 = ''0''" "to_string 8 = ''8''"
  by (simp_all add: to_string_def digits_of.simps)

text \<open>
  \<^verbatim>\<open>-m 0\<close> is taken as it is: the server is started with \<^verbatim>\<open>-m 0\<close> and the loop asks
  for a chunk of 0 bytes. With \<^verbatim>\<open>-m 8\<close> the probe for the file \<^verbatim>\<open>a\<close> is a write of
  26 bytes.
\<close>

theorem capacity_counterexample:
  "buffercapacity (parse_options lp64 [Opt CHR ''m'' ''0'']) = 0 \<and>
   main lp64 example_peer [Opt CHR ''m'' ''0'', Opt CHR ''f'' ''a''] 1 =
     ([Exec [''./server'', ''-m'', ''0''],
       CWrite Control_chan (object_rep (Filemsg 0 0) 24 @ [Chr CHR ''a'', Chr NUL]),
       CRead Control_chan 8,
       Cout (File_length ''a'' 2500),
       Ofs_open ''received/a'',
       CWrite Control_chan (object_rep (Filemsg 0 0) 24 @ [Chr CHR ''a'', Chr NUL]),
       CRead Control_chan 0,
       Ofs_write ''received/a'' []],
      Out_of_fuel) \<and>
   main lp64 example_peer [Opt CHR ''m'' ''8'', Opt CHR ''f'' ''a''] 0 =
     ([Exec [''./server'', ''-m'', ''8''],
       CWrite Control_chan (object_rep (Filemsg 0 0) 24 @ [Chr CHR ''a'', Chr NUL]),
       CRead Control_chan 8,
       Cout (File_length ''a'' 2500),
       Ofs_open ''received/a''],
      Out_of_fuel) \<and>
   length (object_rep (Filemsg 0 0) 24 @ [Chr CHR ''a'', Chr NUL]) = 26"
proof -
  have peer: "can_open example_peer path" "filelen_reply example_peer = 2500" for path
    by (simp_all add: example_peer_def)
  have a0: "parse_options lp64 [Opt CHR ''m'' ''0'', Opt CHR ''f'' ''a''] =
      \<lparr>p = - 1, t = Finite (- 1), c = False, e = 1, filename = ''a'', buffercapacity = 0\<rparr>"
    by (simp add: parse_options_def initial_args_def atoi_0 NUL_def)
  have a8: "parse_options lp64 [Opt CHR ''m'' ''8'', Opt CHR ''f'' ''a''] =
      \<lparr>p = - 1, t = Finite (- 1), c = False, e = 1, filename = ''a'', buffercapacity = 8\<rparr>"
    by (simp add: parse_options_def initial_args_def atoi_8 NUL_def)
  have it: "file_iteration lp64 example_peer Control_chan ''a'' ''received/a'' 0 2500 0 =
      ([CWrite Control_chan (object_rep (Filemsg 0 0) 24 @ [Chr CHR ''a'', Chr NUL]),
        CRead Control_chan 0, Ofs_write ''received/a'' []], Running)"
    by (simp add: file_iteration_def add64_def INT64_MIN_def INT64_MAX_def probe_a new_char_def)
  have "buffercapacity (parse_options lp64 [Opt CHR ''m'' ''0'']) = 0"
    by (simp add: parse_options_def atoi_0)
  moreover have "main lp64 example_peer [Opt CHR ''m'' ''0'', Opt CHR ''f'' ''a''] 1 =
     ([Exec [''./server'', ''-m'', ''0''],
       CWrite Control_chan (object_rep (Filemsg 0 0) 24 @ [Chr CHR ''a'', Chr NUL]),
       CRead Control_chan 8,
       Cout (File_length ''a'' 2500),
       Ofs_open ''received/a'',
       CWrite Control_chan (object_rep (Filemsg 0 0) 24 @ [Chr CHR ''a'', Chr NUL]),
       CRead Control_chan 0,
       Ofs_write ''received/a'' []],
      Out_of_fuel)"
    unfolding main_def a0 client_def
    by (simp add: request_new_channel_def data_points_def request_file_def probe_a peer it
        add64_def INT64_MIN_def INT64_MAX_def then_run_stop leave_main_def run_server_def
        to_string_small sizeof_int64_def Let_def)
  moreover have "main lp64 example_peer [Opt CHR ''m'' ''8'', Opt CHR ''f'' ''a''] 0 =
     ([Exec [''./server'', ''-m'', ''8''],
       CWrite Control_chan (object_rep (Filemsg 0 0) 24 @ [Chr CHR ''a'', Chr NUL]),
       CRead Control_chan 8,
       Cout (File_length ''a'' 2500),
       Ofs_open ''received/a''],
      Out_of_fuel)"
    unfolding main_def a8 client_def
    by (simp add: request_new_channel_def data_points_def request_file_def probe_a peer
        then_run_stop leave_main_def run_server_def to_string_small sizeof_int64_def Let_def)
  moreover have "length (object_rep (Filemsg 0 0) 24 @ [Chr CHR ''a'', Chr NUL]) = 26"
    by simp
  ultimately show ?thesis by blast
qed

subsection \<open>Runs piece by piece\<close>

lemma then_run_events:
  assumes "\<forall>ev \<in> set (fst r1). Q ev" and "\<forall>ev \<in> set (fst r2). Q ev"
  shows "\<forall>ev \<in> set (fst (then_run r1 r2)). Q ev"
  using assms by (auto simp: fst_then_run)

lemma ask_data_eq:
  "ask_data h ch buf person seconds ecgno =
     (if sizeof_datamsg h \<le> length buf
      then ([CWrite ch (object_rep (Datamsg person seconds ecgno) (sizeof_datamsg h)),
             CRead ch sizeof_double], Running)
      else ([], Aborted Buffer_overflow))"
  by (simp add: ask_data_def memcpy_def)

text \<open>What holds of every iteration and is kept by sequencing holds of the loops.\<close>

lemma point_loop_closed:
  assumes seq: "\<And>r1 r2. R r1 \<Longrightarrow> R r2 \<Longrightarrow> R (then_run r1 r2)"
    and idle: "R ([], Running)"
    and it: "\<And>i. R (point_iteration h srv ch a outfile i)"
  shows "R (point_loop h srv ch a outfile i)"
proof (induction "1000 - i" arbitrary: i)
  case 0
  then have "\<not> i < 1000" by simp
  then show ?case using idle by (simp add: point_loop.simps [of h srv ch a outfile i])
next
  case (Suc n)
  then have i: "i < 1000" and n: "n = 1000 - (i + 1)" by simp_all
  have "R (then_run (point_iteration h srv ch a outfile i) (point_loop h srv ch a outfile (i + 1)))"
    using it [of i] Suc.hyps(1) [OF n] by (rule seq)
  with i show ?case
    by (simp only: point_loop.simps [of h srv ch a outfile i] if_True)
qed

lemma file_loop_closed:
  assumes seq: "\<And>r1 r2. R r1 \<Longrightarrow> R r2 \<Longrightarrow> R (then_run r1 r2)"
    and idle: "R ([], Running)" "R ([], Out_of_fuel)" "R ([], Aborted Signed_overflow)"
    and it: "\<And>off. off < L \<Longrightarrow> R (file_iteration h srv ch name out C L off)"
  shows "R (file_loop h srv ch name out C L fuel off)"
proof (induction fuel arbitrary: off)
  case 0
  then show ?case using idle by simp
next
  case (Suc fuel)
  show ?case
  proof (cases "off < L")
    case True
    have "R (case add64 off C of
               None \<Rightarrow> ([], Aborted Signed_overflow)
             | Some off' \<Rightarrow> file_loop h srv ch name out C L fuel off')"
      using idle(3) Suc.IH by (simp split: option.split)
    with it [OF True] have "R (then_run (file_iteration h srv ch name out C L off)
        (case add64 off C of
           None \<Rightarrow> ([], Aborted Signed_overflow)
         | Some off' \<Rightarrow> file_loop h srv ch name out C L fuel off'))"
      by (rule seq)
    then show ?thesis using True by simp
  next
    case False
    then show ?thesis using idle(1) by simp
  qed
qed

lemma point_iteration_cases:
  obtains
    (bad_length) "point_iteration h srv ch a outfile i = ([], Aborted Bad_array_length)"
  | (overflow) "point_iteration h srv ch a outfile i = ([], Aborted Buffer_overflow)"
  | (full) "point_iteration h srv ch a outfile i =
      ([CWrite ch (object_rep (Datamsg (p a) (Finite (real i * 0.004)) 1) (sizeof_datamsg h)),
        CRead ch sizeof_double,
        CWrite ch (object_rep (Datamsg (p a) (Finite (real i * 0.004)) 2) (sizeof_datamsg h)),
        CRead ch sizeof_double,
        Ofs_row outfile (Finite (real i * 0.004)) (ecg_reply srv (p a) (Finite (real i * 0.004)) 1)
          (ecg_reply srv (p a) (Finite (real i * 0.004)) 2)],
       Running)"
  by (cases "buffercapacity a < 0"; cases "sizeof_datamsg h \<le> nat (buffercapacity a)")
     (simp_all add: point_iteration_def new_char_def ask_data_eq Let_def then_run_stop)

lemma request_data_point_cases:
  obtains
    (bad_length) "request_data_point h srv ch a = ([], Aborted Bad_array_length)"
  | (overflow) "request_data_point h srv ch a = ([], Aborted Buffer_overflow)"
  | (full) "request_data_point h srv ch a =
      ([CWrite ch (object_rep (Datamsg (p a) (t a) (e a)) (sizeof_datamsg h)),
        CRead ch sizeof_double,
        Cout (Value_line (p a) (t a) (e a) (ecg_reply srv (p a) (t a) (e a)))],
       Running)"
  by (cases "buffercapacity a < 0"; cases "sizeof_datamsg h \<le> nat (buffercapacity a)")
     (simp_all add: request_data_point_def new_char_def ask_data_eq then_run_stop)

lemma request_points_closed:
  assumes seq: "\<And>r1 r2. R r1 \<Longrightarrow> R r2 \<Longrightarrow> R (then_run r1 r2)"
    and idle: "R ([], Running)"
    and it: "\<And>outfile i. R (point_iteration h srv ch a outfile i)"
    and files: "\<And>path. R ([Cout (Could_not_open path)], Returned 1)"
      "\<And>path. R ([Ofs_open path], Running)" "\<And>path. R ([Ofs_close path], Running)"
  shows "R (request_points h srv ch a)"
proof -
  define outfile where "outfile = ''received/x'' @ to_string (p a) @ ''.csv''"
  have "R (then_run ([Ofs_open outfile], Running)
             (then_run (point_loop h srv ch a outfile 0) ([Ofs_close outfile], Running)))"
    by (intro seq files point_loop_closed [where R = R] idle it)
  then show ?thesis
    using files(1) [of outfile] unfolding request_points_def Let_def outfile_def by simp
qed

lemma data_points_closed:
  assumes seq: "\<And>r1 r2. R r1 \<Longrightarrow> R r2 \<Longrightarrow> R (then_run r1 r2)"
    and idle: "R ([], Running)"
    and it: "\<And>outfile i. R (point_iteration h srv ch a outfile i)"
    and files: "\<And>path. R ([Cout (Could_not_open path)], Returned 1)"
      "\<And>path. R ([Ofs_open path], Running)" "\<And>path. R ([Ofs_close path], Running)"
    and single: "R (request_data_point h srv ch a)"
  shows "R (data_points h srv ch a)"
  unfolding data_points_def
  using request_points_closed [of R h srv ch a, OF seq idle it files] single idle
  by simp

lemma data_points_events:
  assumes w: "\<And>person seconds ecgno.
        Q (CWrite ch (object_rep (Datamsg person seconds ecgno) (sizeof_datamsg h)))"
    and r: "Q (CRead ch sizeof_double)"
    and other: "\<And>l. Q (Cout l)" "\<And>path. Q (Ofs_open path)" "\<And>path. Q (Ofs_close path)"
      "\<And>path x y z. Q (Ofs_row path x y z)"
  shows "\<forall>ev \<in> set (fst (data_points h srv ch a)). Q ev"
proof (rule data_points_closed [where R = "\<lambda>r. \<forall>ev \<in> set (fst r). Q ev"])
  fix outfile i
  show "\<forall>ev \<in> set (fst (point_iteration h srv ch a outfile i)). Q ev"
    by (cases rule: point_iteration_cases [of h srv ch a outfile i]) (simp_all add: w r other)
next
  show "\<forall>ev \<in> set (fst (request_data_point h srv ch a)). Q ev"
    by (cases rule: request_data_point_cases [of h srv ch a]) (simp_all add: w r other)
next
  fix r1 r2 :: run
  assume "\<forall>ev \<in> set (fst r1). Q ev" and "\<forall>ev \<in> set (fst r2). Q ev"
  then show "\<forall>ev \<in> set (fst (then_run r1 r2)). Q ev" by (rule then_run_events)
qed (simp_all add: other)

text \<open>
  Claim C8. Every message the data-point requests write is the bytes of a
  \<^verbatim>\<open>datamsg\<close> struct, \<^verbatim>\<open>sizeof(datamsg)\<close> of them, and every reply is read as 8
  bytes. With \<^verbatim>\<open>-p\<close> and \<^verbatim>\<open>-t\<close> given and a buffer that holds the struct, the run
  is one such write for the person, the time and the ecg number of the options, one read
  of 8 bytes and the line that prints the value.
\<close>

theorem data_point_message:
  "(\<forall>ch' bs. CWrite ch' bs \<in> set (fst (data_points h srv ch a)) \<longrightarrow>
      length bs = sizeof_datamsg h \<and>
      (\<exists>person seconds ecgno. bs = object_rep (Datamsg person seconds ecgno) (sizeof_datamsg h))) \<and>
   (\<forall>ch' n. CRead ch' n \<in> set (fst (data_points h srv ch a)) \<longrightarrow> n = 8) \<and>
   (0 \<le> p a \<and> at_least_zero (t a) \<and> int (sizeof_datamsg h) \<le> buffercapacity a \<longrightarrow>
      data_points h srv ch a =
        ([CWrite ch (object_rep (Datamsg (p a) (t a) (e a)) (sizeof_datamsg h)),
          CRead ch 8,
          Cout (Value_line (p a) (t a) (e a) (ecg_reply srv (p a) (t a) (e a)))],
         Running))"
proof -
  let ?Q = "\<lambda>ev. (\<forall>ch' bs. ev = CWrite ch' bs \<longrightarrow>
        length bs = sizeof_datamsg h \<and>
        (\<exists>person seconds ecgno. bs = object_rep (Datamsg person seconds ecgno) (sizeof_datamsg h))) \<and>
      (\<forall>ch' n. ev = CRead ch' n \<longrightarrow> n = 8)"
  have "\<forall>ev \<in> set (fst (data_points h srv ch a)). ?Q ev"
  proof (rule data_points_events)
    fix person seconds ecgno
    have "\<exists>person' seconds' ecgno'.
        object_rep (Datamsg person seconds ecgno) (sizeof_datamsg h) =
        object_rep (Datamsg person' seconds' ecgno') (sizeof_datamsg h)"
      by (intro exI) (rule refl)
    then show "?Q (CWrite ch (object_rep (Datamsg person seconds ecgno) (sizeof_datamsg h)))"
      by simp
  qed (simp_all add: sizeof_double_def)
  then have all: "\<And>ev. ev \<in> set (fst (data_points h srv ch a)) \<Longrightarrow> ?Q ev"
    by (rule bspec)
  have writes: "\<forall>ch' bs. CWrite ch' bs \<in> set (fst (data_points h srv ch a)) \<longrightarrow>
      length bs = sizeof_datamsg h \<and>
      (\<exists>person seconds ecgno. bs = object_rep (Datamsg person seconds ecgno) (sizeof_datamsg h))"
  proof (intro allI impI)
    fix ch' bs
    assume "CWrite ch' bs \<in> set (fst (data_points h srv ch a))"
    from all [OF this] show "length bs = sizeof_datamsg h \<and>
      (\<exists>person seconds ecgno. bs = object_rep (Datamsg person seconds ecgno) (sizeof_datamsg h))"
      by simp
  qed
  have reads: "\<forall>ch' n. CRead ch' n \<in> set (fst (data_points h srv ch a)) \<longrightarrow> n = 8"
  proof (intro allI impI)
    fix ch' n
    assume "CRead ch' n \<in> set (fst (data_points h srv ch a))"
    from all [OF this] show "n = 8" by simp
  qed
  have single: "0 \<le> p a \<and> at_least_zero (t a) \<and> int (sizeof_datamsg h) \<le> buffercapacity a \<longrightarrow>
      data_points h srv ch a =
        ([CWrite ch (object_rep (Datamsg (p a) (t a) (e a)) (sizeof_datamsg h)),
          CRead ch 8,
          Cout (Value_line (p a) (t a) (e a) (ecg_reply srv (p a) (t a) (e a)))],
         Running)"
  proof (intro impI, elim conjE)
    assume that: "0 \<le> p a" "at_least_zero (t a)" "int (sizeof_datamsg h) \<le> buffercapacity a"
    from that(3) have "\<not> buffercapacity a < 0" "sizeof_datamsg h \<le> nat (buffercapacity a)"
      by linarith+
    then show "data_points h srv ch a =
        ([CWrite ch (object_rep (Datamsg (p a) (t a) (e a)) (sizeof_datamsg h)),
          CRead ch 8,
          Cout (Value_line (p a) (t a) (e a) (ecg_reply srv (p a) (t a) (e a)))],
         Running)"
      using that(1,2)
      by (simp add: data_points_def request_data_point_def new_char_def ask_data_eq
          sizeof_double_def)
  qed
  show ?thesis by (rule conjI [OF writes conjI [OF reads single]])
qed

theorem data_point_message_witness:
  "0 \<le> p \<lparr>p = 3, t = Finite 0.004, c = False, e = 2, filename = [], buffercapacity = 1024\<rparr> \<and>
   at_least_zero
     (t \<lparr>p = 3, t = Finite 0.004, c = False, e = 2, filename = [], buffercapacity = 1024\<rparr>) \<and>
   int (sizeof_datamsg lp64)
     \<le> buffercapacity \<lparr>p = 3, t = Finite 0.004, c = False, e = 2, filename = [], buffercapacity = 1024\<rparr> \<and>
   data_points lp64 example_peer Control_chan
       \<lparr>p = 3, t = Finite 0.004, c = False, e = 2, filename = [], buffercapacity = 1024\<rparr> =
     ([CWrite Control_chan (object_rep (Datamsg 3 (Finite 0.004) 2) 24),
       CRead Control_chan 8,
       Cout (Value_line 3 (Finite 0.004) 2 (ecg_reply example_peer 3 (Finite 0.004) 2))],
      Running) \<and>
   length (object_rep (Datamsg 3 (Finite 0.004) 2) 24) = sizeof_datamsg lp64"
proof -
  let ?a = "\<lparr>p = 3, t = Finite 0.004, c = False, e = 2, filename = [], buffercapacity = 1024\<rparr>"
  have hyps: "0 \<le> p ?a \<and> at_least_zero (t ?a) \<and> int (sizeof_datamsg lp64) \<le> buffercapacity ?a"
    by (simp add: lp64_def)
  have sz: "sizeof_datamsg lp64 = 24" by (simp add: lp64_def)
  note r = data_point_message [of lp64 example_peer Control_chan ?a,
      THEN conjunct2, THEN conjunct2, THEN mp, OF hyps]
  have "data_points lp64 example_peer Control_chan ?a =
     ([CWrite Control_chan (object_rep (Datamsg 3 (Finite 0.004) 2) 24),
       CRead Control_chan 8,
       Cout (Value_line 3 (Finite 0.004) 2 (ecg_reply example_peer 3 (Finite 0.004) 2))],
      Running)"
    using r unfolding sz by (simp only: args.simps)
  moreover have "length (object_rep (Datamsg 3 (Finite 0.004) 2) 24) = sizeof_datamsg lp64"
    by (simp add: sz)
  ultimately show ?thesis using hyps by (intro conjI) (elim conjE, assumption)+
qed

subsection \<open>The new channel\<close>

lemma c_string_indeterminate: "c_string (replicate n Indet) = None"
  by (cases n) simp_all

lemma c_string_chars:
  "c_string (map Chr s @ replicate n Indet) =
     (if NUL \<in> set s then Some (takeWhile (\<lambda>x. x \<noteq> NUL) s) else None)"
  by (induction s) (auto simp: c_string_indeterminate)

lemma c_string_reply:
  "c_string (cread_into (replicate 30 Indet) reply 30) =
     (if NUL \<in> set (take 30 reply) then Some (takeWhile (\<lambda>x. x \<noteq> NUL) (take 30 reply))
      else None)"
  by (simp add: cread_into_def c_string_chars)

lemma request_new_channel_eq:
  "request_new_channel h srv a =
     (if c a then
        if buffercapacity a < 0 then ([], Inl Bad_array_length)
        else if nat (buffercapacity a) < sizeof_MESSAGE_TYPE h then ([], Inl Buffer_overflow)
        else ([CWrite Control_chan (object_rep (Mtype NEWCHANNEL_MSG) (sizeof_MESSAGE_TYPE h)),
               CRead Control_chan 30],
              if NUL \<in> set (take 30 (newchannel_reply srv))
              then Inr (New_chan (takeWhile (\<lambda>x. x \<noteq> NUL) (take 30 (newchannel_reply srv))))
              else Inl Bad_c_string)
      else ([], Inr Control_chan))"
  by (simp add: request_new_channel_def new_char_def memcpy_def c_string_reply Let_def)

text \<open>
  Claim C10. With \<^verbatim>\<open>-c\<close> the only message written is the \<^verbatim>\<open>sizeof(MESSAGE_TYPE)\<close>
  bytes of the tag \<^verbatim>\<open>NEWCHANNEL_MSG\<close>, on the control channel; the reply is read there
  as 30 bytes, whatever the capacity; and the channel the client goes on with is named by
  the bytes of that block before its first NUL. The name is obtained whenever the buffer
  holds the tag and the block has a NUL.
\<close>

theorem new_channel_exchange:
  assumes "c a"
  shows
    "(\<forall>ch bs. CWrite ch bs \<in> set (fst (request_new_channel h srv a)) \<longrightarrow>
        ch = Control_chan \<and> bs = object_rep (Mtype NEWCHANNEL_MSG) (sizeof_MESSAGE_TYPE h)) \<and>
     (\<forall>ch n. CRead ch n \<in> set (fst (request_new_channel h srv a)) \<longrightarrow>
        ch = Control_chan \<and> n = 30) \<and>
     (\<forall>active_chan. snd (request_new_channel h srv a) = Inr active_chan \<longrightarrow>
        fst (request_new_channel h srv a) =
          [CWrite Control_chan (object_rep (Mtype NEWCHANNEL_MSG) (sizeof_MESSAGE_TYPE h)),
           CRead Control_chan 30] \<and>
        active_chan =
          New_chan (takeWhile (\<lambda>x. x \<noteq> NUL) (take 30 (newchannel_reply srv)))) \<and>
     (int (sizeof_MESSAGE_TYPE h) \<le> buffercapacity a \<and>
      NUL \<in> set (take 30 (newchannel_reply srv)) \<longrightarrow>
        snd (request_new_channel h srv a) =
          Inr (New_chan (takeWhile (\<lambda>x. x \<noteq> NUL) (take 30 (newchannel_reply srv)))))"
  using assms by (auto simp: request_new_channel_eq)

theorem new_channel_exchange_witness:
  "c \<lparr>p = - 1, t = Finite (- 1), c = True, e = 1, filename = [], buffercapacity = 1024\<rparr> \<and>
   int (sizeof_MESSAGE_TYPE lp64)
     \<le> buffercapacity \<lparr>p = - 1, t = Finite (- 1), c = True, e = 1, filename = [], buffercapacity = 1024\<rparr> \<and>
   NUL \<in> set (take 30 (newchannel_reply example_peer)) \<and>
   snd (request_new_channel lp64 example_peer
          \<lparr>p = - 1, t = Finite (- 1), c = True, e = 1, filename = [], buffercapacity = 1024\<rparr>)
     = Inr (New_chan ''data1_'') \<and>
   fst (request_new_channel lp64 example_peer
          \<lparr>p = - 1, t = Finite (- 1), c = True, e = 1, filename = [], buffercapacity = 1024\<rparr>)
     = [CWrite Control_chan (object_rep (Mtype NEWCHANNEL_MSG) 4), CRead Control_chan 30]"
proof -
  let ?a = "\<lparr>p = - 1, t = Finite (- 1), c = True, e = 1, filename = [], buffercapacity = 1024\<rparr>"
  have c: "c ?a" by simp
  have hyps: "int (sizeof_MESSAGE_TYPE lp64) \<le> buffercapacity ?a \<and>
      NUL \<in> set (take 30 (newchannel_reply example_peer))"
    by (simp add: lp64_def example_peer_def)
  have name: "takeWhile (\<lambda>x. x \<noteq> NUL) (take 30 (newchannel_reply example_peer)) = ''data1_''"
    by (simp add: example_peer_def NUL_def)
  have sz: "sizeof_MESSAGE_TYPE lp64 = 4" by (simp add: lp64_def)
  note ex = new_channel_exchange [OF c, of lp64 example_peer]
  from ex [THEN conjunct2, THEN conjunct2, THEN conjunct2, THEN mp, OF hyps]
  have active: "snd (request_new_channel lp64 example_peer ?a) = Inr (New_chan ''data1_'')"
    by (simp only: name)
  from ex [THEN conjunct2, THEN conjunct2, THEN conjunct1, THEN spec, THEN mp, OF active]
  have "fst (request_new_channel lp64 example_peer ?a) =
      [CWrite Control_chan (object_rep (Mtype NEWCHANNEL_MSG) 4), CRead Control_chan 30]"
    by (simp only: sz)
  with c hyps active show ?thesis by (intro conjI) (elim conjE, assumption)+
qed

subsection \<open>The file transfer and the whole run, piece by piece\<close>

lemma file_iteration_closed:
  assumes "\<And>f. R ([], Aborted f)"
    and "\<And>bs. R ([CWrite ch bs], Aborted Bad_array_length)"
    and "\<And>bs d. 0 \<le> chunk_length C L off \<Longrightarrow>
        R ([CWrite ch bs, CRead ch (nat (chunk_length C L off)), Ofs_write out d], Running)"
  shows "R (file_iteration h srv ch name out C L off)"
  by (cases rule: file_iteration_cases [of off C h srv ch name out L]) (simp_all add: assms)

lemma request_file_closed:
  assumes seq: "\<And>r1 r2. R r1 \<Longrightarrow> R r2 \<Longrightarrow> R (then_run r1 r2)"
    and idle: "R ([], Running)" "R ([], Out_of_fuel)" "\<And>f. R ([], Aborted f)"
    and chunk: "\<And>bs. R ([CWrite ch bs], Aborted Bad_array_length)"
      "\<And>bs n d out. G n \<Longrightarrow> R ([CWrite ch bs, CRead ch n, Ofs_write out d], Running)"
    and sizes: "\<And>off. off < filelen_reply srv \<Longrightarrow>
        0 \<le> chunk_length (buffercapacity a) (filelen_reply srv) off \<Longrightarrow>
        G (nat (chunk_length (buffercapacity a) (filelen_reply srv) off))"
    and probe: "\<And>bs l out. R ([CWrite ch bs, CRead ch sizeof_int64, Cout l,
        Cout (Could_not_open out)], Returned 1)"
      "\<And>bs l out. R ([CWrite ch bs, CRead ch sizeof_int64, Cout l, Ofs_open out], Running)"
    and close: "\<And>out. R ([Ofs_close out], Running)"
  shows "R (request_file h srv ch a fuel)"
proof (cases "filename a = []")
  case True
  then show ?thesis using idle(1) by (simp add: request_file_def)
next
  case False
  define out where "out = ''received/'' @ filename a"
  define loop where "loop = file_loop h srv ch (filename a) out (buffercapacity a)
      (filelen_reply srv) fuel 0"
  have "R (file_iteration h srv ch (filename a) out (buffercapacity a) (filelen_reply srv) off)"
    if "off < filelen_reply srv" for off
    by (rule file_iteration_closed [where R = R]) (simp_all add: idle chunk sizes that)
  then have loop: "R loop"
    unfolding loop_def
    by (intro file_loop_closed [where R = R] seq idle)
  from file_request_shape [of h ch "filename a" 0 0] show ?thesis
  proof (elim disjE exE)
    fix f assume "file_request h ch (filename a) 0 0 = ([], Aborted f)"
    then show ?thesis using False idle(3) [of f]
      by (simp add: request_file_def then_run_stop)
  next
    fix bs assume fr: "file_request h ch (filename a) 0 0 = ([CWrite ch bs], Running)"
    show ?thesis
    proof (cases "can_open srv out")
      case True
      have "R (then_run ([CWrite ch bs, CRead ch sizeof_int64,
            Cout (File_length (filename a) (filelen_reply srv)), Ofs_open out], Running)
          (then_run loop ([Ofs_close out], Running)))"
        by (intro seq probe(2) loop close)
      then show ?thesis using False True
        unfolding request_file_def Let_def fr out_def loop_def by simp
    next
      case cannot: False
      then show ?thesis using False probe(1)
        unfolding request_file_def Let_def fr out_def by simp
    qed
  qed
qed

lemma point_iteration_closed:
  assumes "\<And>f. R ([], Aborted f)"
    and "\<And>bs1 bs2 path x y z. R ([CWrite ch bs1, CRead ch sizeof_double, CWrite ch bs2,
        CRead ch sizeof_double, Ofs_row path x y z], Running)"
  shows "R (point_iteration h srv ch a outfile i)"
  by (cases rule: point_iteration_cases [of h srv ch a outfile i]) (simp_all add: assms)

lemma request_data_point_closed:
  assumes "\<And>f. R ([], Aborted f)"
    and "\<And>bs l. R ([CWrite ch bs, CRead ch sizeof_double, Cout l], Running)"
  shows "R (request_data_point h srv ch a)"
  by (cases rule: request_data_point_cases [of h srv ch a]) (simp_all add: assms)

lemma requests_closed:
  assumes seq: "\<And>r1 r2. R r1 \<Longrightarrow> R r2 \<Longrightarrow> R (then_run r1 r2)"
    and idle: "R ([], Running)" "R ([], Out_of_fuel)" "\<And>f. R ([], Aborted f)"
    and chunk: "\<And>bs. R ([CWrite ch bs], Aborted Bad_array_length)"
      "\<And>bs n d out. G n \<Longrightarrow> R ([CWrite ch bs, CRead ch n, Ofs_write out d], Running)"
    and sizes: "\<And>off. off < filelen_reply srv \<Longrightarrow>
        0 \<le> chunk_length (buffercapacity a) (filelen_reply srv) off \<Longrightarrow>
        G (nat (chunk_length (buffercapacity a) (filelen_reply srv) off))"
    and probe: "\<And>bs l out. R ([CWrite ch bs, CRead ch sizeof_int64, Cout l,
        Cout (Could_not_open out)], Returned 1)"
      "\<And>bs l out. R ([CWrite ch bs, CRead ch sizeof_int64, Cout l, Ofs_open out], Running)"
    and files: "\<And>path. R ([Cout (Could_not_open path)], Returned 1)"
      "\<And>path. R ([Ofs_open path], Running)" "\<And>out. R ([Ofs_close out], Running)"
    and points: "\<And>bs1 bs2 path x y z. R ([CWrite ch bs1, CRead ch sizeof_double,
        CWrite ch bs2, CRead ch sizeof_double, Ofs_row path x y z], Running)"
      "\<And>bs l. R ([CWrite ch bs, CRead ch sizeof_double, Cout l], Running)"
    and quit: "R (close_channel h a ch)"
  shows "R (requests h srv ch a fuel)"
proof -
  have transfer: "R (request_file h srv ch a fuel)"
    by (rule request_file_closed [where R = R and G = G])
       (simp_all add: seq idle chunk probe files sizes)
  have "R (data_points h srv ch a)"
    by (intro seq data_points_closed [where R = R] point_iteration_closed [where R = R]
        request_data_point_closed [where R = R] idle files points)
  then show ?thesis
    unfolding requests_def by (intro seq quit transfer)
qed

lemma client_unfold:
  "client h srv a fuel =
     leave_main
       (case snd (request_new_channel h srv a) of
          Inl f \<Rightarrow> (run_server a # fst (request_new_channel h srv a), Aborted f)
        | Inr active_chan \<Rightarrow>
            then_run (run_server a # fst (request_new_channel h srv a), Running)
              (requests h srv active_chan a fuel))"
  by (cases "request_new_channel h srv a") (simp add: client_def requests_def split: sum.split)

subsection \<open>A length that is not positive\<close>

text \<open>The length of the file is read by the file transfer only.\<close>

lemma point_loop_filelen:
  "point_loop h (srv\<lparr>filelen_reply := l\<rparr>) ch a outfile i = point_loop h srv ch a outfile i"
proof (induction "1000 - i" arbitrary: i)
  case 0
  then have "\<not> i < 1000" by simp
  then show ?case
    by (simp add: point_loop.simps [of h srv ch a outfile i]
        point_loop.simps [of h "srv\<lparr>filelen_reply := l\<rparr>" ch a outfile i])
next
  case (Suc n)
  then have i: "i < 1000" and n: "n = 1000 - (i + 1)" by simp_all
  have "point_iteration h (srv\<lparr>filelen_reply := l\<rparr>) ch a outfile i =
      point_iteration h srv ch a outfile i"
    by (simp add: point_iteration_def Let_def split: option.split)
  with Suc.hyps(1) [OF n] i show ?case
    by (simp add: point_loop.simps [of h srv ch a outfile i]
        point_loop.simps [of h "srv\<lparr>filelen_reply := l\<rparr>" ch a outfile i])
qed

lemma data_points_filelen:
  "data_points h (srv\<lparr>filelen_reply := l\<rparr>) ch a = data_points h srv ch a"
  by (simp add: data_points_def request_data_point_def request_points_def point_loop_filelen
      Let_def split: option.split)

lemma request_new_channel_filelen:
  "request_new_channel h (srv\<lparr>filelen_reply := l\<rparr>) a = request_new_channel h srv a"
  by (simp add: request_new_channel_eq)

text \<open>The run of a file transfer in which the loop of line 159 is not entered.\<close>

lemma client_without_chunks:
  assumes name: "filename a \<noteq> []" and opened: "can_open srv (''received/'' @ filename a)"
    and len: "filelen_reply srv \<le> 0"
    and chan: "snd (request_new_channel h srv a) = Inr ch"
    and pts: "snd (data_points h srv ch a) = Running"
    and fits: "int (sizeof_filemsg h + (length (filename a) + 1)) < 2 ^ 31"
  shows "client h srv a fuel =
     (run_server a # fst (request_new_channel h srv a) @ fst (data_points h srv ch a) @
       [CWrite ch (object_rep (Filemsg 0 0) (sizeof_filemsg h) @ padded_name (filename a)),
        CRead ch sizeof_int64,
        Cout (File_length (filename a) (filelen_reply srv)),
        Ofs_open (''received/'' @ filename a),
        Ofs_close (''received/'' @ filename a),
        Cout (Closing_channel (chan_name ch)),
        CWrite ch (quit_message h)] @
       (if c a then [Close ch] else []) @ [Close Control_chan],
      Returned 0)"
proof -
  have loop: "file_loop h srv ch (filename a) (''received/'' @ filename a) (buffercapacity a)
      (filelen_reply srv) fuel 0 = ([], Running)"
    using len by (intro file_loop_done) simp
  have rf: "request_file h srv ch a fuel =
     ([CWrite ch (object_rep (Filemsg 0 0) (sizeof_filemsg h) @ padded_name (filename a)),
       CRead ch sizeof_int64, Cout (File_length (filename a) (filelen_reply srv)),
       Ofs_open (''received/'' @ filename a), Ofs_close (''received/'' @ filename a)], Running)"
    unfolding request_file_unfold [OF name opened fits refl, of ch fuel] loop by simp
  obtain es where dp: "data_points h srv ch a = (es, Running)"
    using pts by (cases "data_points h srv ch a") simp
  show ?thesis
    by (simp add: client_unfold chan requests_def rf dp close_channel_def leave_main_def)
qed

text \<open>
  The length \<open>- 1\<close> for the file \<^verbatim>\<open>a\<close>: \<^verbatim>\<open>main\<close> returns 0, the output file is
  empty, and nothing but the printed length tells the run from that of an empty file.
\<close>

theorem missing_file_counterexample:
  "main lp64 (example_peer\<lparr>filelen_reply := - 1\<rparr>) [Opt CHR ''f'' ''a''] 0 =
     ([Exec [''./server'', ''-m'', ''256''],
       CWrite Control_chan (object_rep (Filemsg 0 0) 24 @ [Chr CHR ''a'', Chr NUL]),
       CRead Control_chan 8,
       Cout (File_length ''a'' (- 1)),
       Ofs_open ''received/a'',
       Ofs_close ''received/a'',
       Cout (Closing_channel ''control''),
       CWrite Control_chan (object_rep (Mtype QUIT_MSG) 4),
       Close Control_chan],
      Returned 0)"
proof -
  have a: "parse_options lp64 [Opt CHR ''f'' ''a''] =
      \<lparr>p = - 1, t = Finite (- 1), c = False, e = 1, filename = ''a'', buffercapacity = 256\<rparr>"
    by (simp add: parse_options_def initial_args_def NUL_def lp64_def)
  have peer: "can_open example_peer path" for path
    by (simp add: example_peer_def)
  have f: "request_file lp64 (example_peer\<lparr>filelen_reply := - 1\<rparr>) Control_chan
      \<lparr>p = - 1, t = Finite (- 1), c = False, e = 1, filename = ''a'', buffercapacity = 256\<rparr> 0 =
     ([CWrite Control_chan (object_rep (Filemsg 0 0) 24 @ [Chr CHR ''a'', Chr NUL]),
       CRead Control_chan 8, Cout (File_length ''a'' (- 1)),
       Ofs_open ''received/a'', Ofs_close ''received/a''], Running)"
    by (simp add: request_file_def probe_a peer sizeof_int64_def Let_def)
  show ?thesis
    unfolding main_def a client_def
    by (simp add: request_new_channel_def data_points_def f close_channel_def leave_main_def
        run_server_def to_string_256 quit_message_def)
       (simp add: lp64_def)
qed

text \<open>
  Claim C5, as amended. When the server answers the probe with a length that is not
  positive, the sentinel \<open>- 1\<close> included, the client prints the length it received,
  opens the output file and closes it empty, writes no chunk request, writes QUIT on the
  channel of the transfer, and \<^verbatim>\<open>main\<close> returns 0, whatever the capacity and the fuel: no
  error reaches the caller. The run is, event for event, the run with the same server
  reporting the length 0, but for the number printed. This is the run of a client that
  got its channel, whose data points (if any) went through, and whose output file can be
  opened.
\<close>

theorem negative_length_like_empty_file:
  assumes "filename a \<noteq> []" and "can_open srv (''received/'' @ filename a)"
    and "filelen_reply srv \<le> 0"
    and "snd (request_new_channel h srv a) = Inr ch"
    and "snd (data_points h srv ch a) = Running"
    and "int (sizeof_filemsg h + (length (filename a) + 1)) < 2 ^ 31"
  shows "client h srv a fuel =
     (run_server a # fst (request_new_channel h srv a) @ fst (data_points h srv ch a) @
       [CWrite ch (object_rep (Filemsg 0 0) (sizeof_filemsg h) @ padded_name (filename a)),
        CRead ch sizeof_int64,
        Cout (File_length (filename a) (filelen_reply srv)),
        Ofs_open (''received/'' @ filename a),
        Ofs_close (''received/'' @ filename a),
        Cout (Closing_channel (chan_name ch)),
        CWrite ch (quit_message h)] @
       (if c a then [Close ch] else []) @ [Close Control_chan],
      Returned 0) \<and>
    client h (srv\<lparr>filelen_reply := 0\<rparr>) a fuel =
     (run_server a # fst (request_new_channel h srv a) @ fst (data_points h srv ch a) @
       [CWrite ch (object_rep (Filemsg 0 0) (sizeof_filemsg h) @ padded_name (filename a)),
        CRead ch sizeof_int64,
        Cout (File_length (filename a) 0),
        Ofs_open (''received/'' @ filename a),
        Ofs_close (''received/'' @ filename a),
        Cout (Closing_channel (chan_name ch)),
        CWrite ch (quit_message h)] @
       (if c a then [Close ch] else []) @ [Close Control_chan],
      Returned 0)"
proof -
  let ?srv = "srv\<lparr>filelen_reply := 0\<rparr>"
  have "client h ?srv a fuel =
     (run_server a # fst (request_new_channel h ?srv a) @ fst (data_points h ?srv ch a) @
       [CWrite ch (object_rep (Filemsg 0 0) (sizeof_filemsg h) @ padded_name (filename a)),
        CRead ch sizeof_int64,
        Cout (File_length (filename a) (filelen_reply ?srv)),
        Ofs_open (''received/'' @ filename a),
        Ofs_close (''received/'' @ filename a),
        Cout (Closing_channel (chan_name ch)),
        CWrite ch (quit_message h)] @
       (if c a then [Close ch] else []) @ [Close Control_chan],
      Returned 0)"
    using assms
    by (intro client_without_chunks)
       (simp_all add: data_points_filelen request_new_channel_filelen)
  then have "client h ?srv a fuel =
     (run_server a # fst (request_new_channel h srv a) @ fst (data_points h srv ch a) @
       [CWrite ch (object_rep (Filemsg 0 0) (sizeof_filemsg h) @ padded_name (filename a)),
        CRead ch sizeof_int64,
        Cout (File_length (filename a) 0),
        Ofs_open (''received/'' @ filename a),
        Ofs_close (''received/'' @ filename a),
        Cout (Closing_channel (chan_name ch)),
        CWrite ch (quit_message h)] @
       (if c a then [Close ch] else []) @ [Close Control_chan],
      Returned 0)"
    by (simp add: data_points_filelen request_new_channel_filelen)
  with client_without_chunks [OF assms, of fuel] show ?thesis by (rule conjI)
qed

text \<open>The run of the counterexample, and the run with the length 0 beside it.\<close>

theorem negative_length_like_empty_file_witness:
  "filename \<lparr>p = - 1, t = Finite (- 1), c = False, e = 1, filename = ''a'', buffercapacity = 256\<rparr> \<noteq> [] \<and>
   can_open (example_peer\<lparr>filelen_reply := - 1\<rparr>) (''received/'' @ ''a'') \<and>
   filelen_reply (example_peer\<lparr>filelen_reply := - 1\<rparr>) \<le> 0 \<and>
   snd (request_new_channel lp64 (example_peer\<lparr>filelen_reply := - 1\<rparr>) \<lparr>p = - 1, t = Finite (- 1), c = False, e = 1, filename = ''a'', buffercapacity = 256\<rparr>) = Inr Control_chan \<and>
   snd (data_points lp64 (example_peer\<lparr>filelen_reply := - 1\<rparr>) Control_chan \<lparr>p = - 1, t = Finite (- 1), c = False, e = 1, filename = ''a'', buffercapacity = 256\<rparr>) = Running \<and>
   int (sizeof_filemsg lp64 + (length ''a'' + 1)) < 2 ^ 31 \<and>
   client lp64 (example_peer\<lparr>filelen_reply := - 1\<rparr>) \<lparr>p = - 1, t = Finite (- 1), c = False, e = 1, filename = ''a'', buffercapacity = 256\<rparr> 0 =
     ([Exec [''./server'', ''-m'', ''256''],
       CWrite Control_chan (object_rep (Filemsg 0 0) 24 @ [Chr CHR ''a'', Chr NUL]),
       CRead Control_chan 8,
       Cout (File_length ''a'' (- 1)),
       Ofs_open ''received/a'',
       Ofs_close ''received/a'',
       Cout (Closing_channel ''control''),
       CWrite Control_chan (object_rep (Mtype QUIT_MSG) 4),
       Close Control_chan],
      Returned 0) \<and>
   client lp64 (example_peer\<lparr>filelen_reply := 0\<rparr>) \<lparr>p = - 1, t = Finite (- 1), c = False, e = 1, filename = ''a'', buffercapacity = 256\<rparr> 0 =
     ([Exec [''./server'', ''-m'', ''256''],
       CWrite Control_chan (object_rep (Filemsg 0 0) 24 @ [Chr CHR ''a'', Chr NUL]),
       CRead Control_chan 8,
       Cout (File_length ''a'' 0),
       Ofs_open ''received/a'',
       Ofs_close ''received/a'',
       Cout (Closing_channel ''control''),
       CWrite Control_chan (object_rep (Mtype QUIT_MSG) 4),
       Close Control_chan],
      Returned 0)"
proof -
  let ?a = "\<lparr>p = - 1, t = Finite (- 1), c = False, e = 1, filename = ''a'', buffercapacity = 256\<rparr>"
  let ?srv = "example_peer\<lparr>filelen_reply := - 1\<rparr>"
  have hyps: "filename ?a \<noteq> []" "can_open ?srv (''received/'' @ filename ?a)"
    "filelen_reply ?srv \<le> 0"
    "snd (request_new_channel lp64 ?srv ?a) = Inr Control_chan"
    "snd (data_points lp64 ?srv Control_chan ?a) = Running"
    "int (sizeof_filemsg lp64 + (length (filename ?a) + 1)) < 2 ^ 31"
    by (simp_all add: example_peer_def request_new_channel_eq data_points_def lp64_def)
  have sizes: "sizeof_filemsg lp64 = 24" "sizeof_MESSAGE_TYPE lp64 = 4"
    by (simp_all add: lp64_def)
  from negative_length_like_empty_file [OF hyps, of 0] hyps
  show ?thesis
    by (simp add: request_new_channel_eq data_points_def run_server_def to_string_256
        padded_name_def NUL_def sizeof_int64_def quit_message_def sizes)
qed

subsection \<open>One request in flight\<close>

lemma in_flight_broken [simp]: "foldl (in_flight ch) None es = None"
  by (induction es) (simp_all add: in_flight_def)

lemma settled_then_run:
  assumes "settled ch r1" and "settled ch r2"
  shows "settled ch (then_run r1 r2)"
proof (cases "snd r1 = Running")
  case True
  with assms(1) have "foldl (in_flight ch) (Some False) (fst r1) = Some False"
    by (simp add: settled_def)
  with True assms(2) show ?thesis
    by (simp add: settled_def fst_then_run snd_then_run)
next
  case False
  with assms(1) show ?thesis
    by (simp add: settled_def fst_then_run snd_then_run)
qed

lemma chunk_length_not_zero:
  assumes "C \<noteq> 0" "C < 2 ^ 31" "off < L" "0 \<le> chunk_length C L off"
  shows "0 < chunk_length C L off"
proof (cases "0 < C")
  case True
  with assms(2,3) show ?thesis using chunk_length_bounds by simp
next
  case False
  with assms(1,3) have "chunk_length C L off = C"
    by (simp add: chunk_length_def)
  with assms(1,4) show ?thesis by simp
qed

lemma settled_requests:
  assumes "buffercapacity a \<noteq> 0" "buffercapacity a < 2 ^ 31"
  shows "settled ch' (requests h srv ch a fuel)"
proof (rule requests_closed [where R = "settled ch'" and G = "\<lambda>n. 0 < n"])
  show "0 < nat (chunk_length (buffercapacity a) (filelen_reply srv) off)"
    if "off < filelen_reply srv" "0 \<le> chunk_length (buffercapacity a) (filelen_reply srv) off"
    for off
    using chunk_length_not_zero [OF assms that] by simp
qed (simp_all add: settled_then_run,
     simp_all add: settled_def in_flight_def close_channel_def sizeof_double_def sizeof_int64_def)

lemma settled_leave_main: "settled ch r \<Longrightarrow> settled ch (leave_main r)"
  by (cases "snd r") (auto simp: leave_main_def settled_def in_flight_def)

lemma settled_client:
  assumes "buffercapacity a \<noteq> 0" "buffercapacity a < 2 ^ 31"
  shows "settled ch (client h srv a fuel)"
proof -
  have start: "settled ch (run_server a # fst (request_new_channel h srv a), st)" for st
    by (simp add: request_new_channel_eq settled_def in_flight_def run_server_def)
  have "settled ch
       (case snd (request_new_channel h srv a) of
          Inl f \<Rightarrow> (run_server a # fst (request_new_channel h srv a), Aborted f)
        | Inr active_chan \<Rightarrow>
            then_run (run_server a # fst (request_new_channel h srv a), Running)
              (requests h srv active_chan a fuel))"
  proof (cases "snd (request_new_channel h srv a)")
    case (Inl f)
    then show ?thesis by (simp add: start)
  next
    case (Inr active_chan)
    have "settled ch (then_run (run_server a # fst (request_new_channel h srv a), Running)
        (requests h srv active_chan a fuel))"
      using start settled_requests [OF assms] by (rule settled_then_run)
    with Inr show ?thesis by (simp only: sum.case)
  qed
  then show ?thesis
    unfolding client_unfold by (rule settled_leave_main)
qed

text \<open>Two requests in a row, and a read with no request, break the discipline; so do two
  requests with only a read of no byte between them.\<close>

lemma discipline_broken:
  "\<not> one_in_flight ch [CWrite ch bs, CWrite ch bs']"
  "0 < n \<Longrightarrow> \<not> one_in_flight ch [CRead ch n]"
  "\<not> one_in_flight ch [CWrite ch bs, CRead ch 0, CWrite ch bs']"
  by (simp_all add: one_in_flight_def in_flight_def)

text \<open>
  With a capacity of 0 the discipline is broken. With \<^verbatim>\<open>-m 0 -f a\<close> and a file of 2500
  bytes the chunk length is 0 in every iteration of the loop of line 159: line 180 is
  \<^verbatim>\<open>cread(buf4, 0)\<close>, which reads no reply, and the next iteration writes the next file
  request on the control channel while the reply to the one before has not been read. The
  run below is the one of two iterations.
\<close>

theorem zero_capacity_counterexample:
  "main lp64 example_peer [Opt CHR ''m'' ''0'', Opt CHR ''f'' ''a''] 2 =
     ([Exec [''./server'', ''-m'', ''0''],
       CWrite Control_chan (object_rep (Filemsg 0 0) 24 @ [Chr CHR ''a'', Chr NUL]),
       CRead Control_chan 8,
       Cout (File_length ''a'' 2500),
       Ofs_open ''received/a'',
       CWrite Control_chan (object_rep (Filemsg 0 0) 24 @ [Chr CHR ''a'', Chr NUL]),
       CRead Control_chan 0,
       Ofs_write ''received/a'' [],
       CWrite Control_chan (object_rep (Filemsg 0 0) 24 @ [Chr CHR ''a'', Chr NUL]),
       CRead Control_chan 0,
       Ofs_write ''received/a'' []],
      Out_of_fuel) \<and>
   \<not> one_in_flight Control_chan
     (fst (main lp64 example_peer [Opt CHR ''m'' ''0'', Opt CHR ''f'' ''a''] 2))"
proof -
  have peer: "can_open example_peer path" "filelen_reply example_peer = 2500" for path
    by (simp_all add: example_peer_def)
  have a0: "parse_options lp64 [Opt CHR ''m'' ''0'', Opt CHR ''f'' ''a''] =
      \<lparr>p = - 1, t = Finite (- 1), c = False, e = 1, filename = ''a'', buffercapacity = 0\<rparr>"
    by (simp add: parse_options_def initial_args_def atoi_0 NUL_def)
  have it: "file_iteration lp64 example_peer Control_chan ''a'' ''received/a'' 0 2500 0 =
      ([CWrite Control_chan (object_rep (Filemsg 0 0) 24 @ [Chr CHR ''a'', Chr NUL]),
        CRead Control_chan 0, Ofs_write ''received/a'' []], Running)"
    by (simp add: file_iteration_def add64_def INT64_MIN_def INT64_MAX_def probe_a new_char_def)
  have two: "Suc (Suc 0) = 2" by simp
  have run: "main lp64 example_peer [Opt CHR ''m'' ''0'', Opt CHR ''f'' ''a''] 2 =
     ([Exec [''./server'', ''-m'', ''0''],
       CWrite Control_chan (object_rep (Filemsg 0 0) 24 @ [Chr CHR ''a'', Chr NUL]),
       CRead Control_chan 8,
       Cout (File_length ''a'' 2500),
       Ofs_open ''received/a'',
       CWrite Control_chan (object_rep (Filemsg 0 0) 24 @ [Chr CHR ''a'', Chr NUL]),
       CRead Control_chan 0,
       Ofs_write ''received/a'' [],
       CWrite Control_chan (object_rep (Filemsg 0 0) 24 @ [Chr CHR ''a'', Chr NUL]),
       CRead Control_chan 0,
       Ofs_write ''received/a'' []],
      Out_of_fuel)"
    unfolding main_def a0 client_def two [symmetric]
    by (simp add: request_new_channel_def data_points_def request_file_def probe_a peer it
        add64_def INT64_MIN_def INT64_MAX_def then_run_stop leave_main_def run_server_def
        to_string_small sizeof_int64_def Let_def)
  have "\<not> one_in_flight Control_chan
     (fst (main lp64 example_peer [Opt CHR ''m'' ''0'', Opt CHR ''f'' ''a''] 2))"
    unfolding run by (simp add: one_in_flight_def in_flight_def)
  with run show ?thesis by (rule conjI)
qed

text \<open>
  Claim C2, corrected. When the capacity is not 0, on every channel, in every run of the
  client, whatever the other options, the peer and the fuel, a \<^verbatim>\<open>cwrite\<close> is made only
  when no request is waiting for its reply and a \<^verbatim>\<open>cread\<close> of at least one byte only
  when one is, and between two requests on a channel there is a read of at least one byte:
  the reply to a request is read before the next request is written, in every mode. The
  capacity is an \<^verbatim>\<open>int\<close>, so it is below \<open>2\<^sup>3\<^sup>1\<close>. The same holds of \<^verbatim>\<open>main\<close> on every
  command line that gives this capacity.
\<close>

theorem one_request_in_flight:
  assumes "buffercapacity a \<noteq> 0" and "buffercapacity a < 2 ^ 31"
  shows "one_in_flight ch (fst (client h srv a fuel)) \<and>
    (a = parse_options h opts \<longrightarrow> one_in_flight ch (fst (main h srv opts fuel)))"
proof -
  have "one_in_flight ch (fst (client h srv a fuel))"
    using settled_client [OF assms, of ch h srv fuel]
    by (auto simp: settled_def one_in_flight_def)
  then show ?thesis by (auto simp: main_def)
qed

theorem one_request_in_flight_witness:
  "buffercapacity (parse_options lp64 [Opt CHR ''f'' ''a'', Opt CHR ''m'' ''1024'']) \<noteq> 0 \<and>
   buffercapacity (parse_options lp64 [Opt CHR ''f'' ''a'', Opt CHR ''m'' ''1024'']) < 2 ^ 31 \<and>
   one_in_flight Control_chan
     (fst (client lp64 example_peer
        (parse_options lp64 [Opt CHR ''f'' ''a'', Opt CHR ''m'' ''1024'']) 3)) \<and>
   one_in_flight Control_chan
     (fst (main lp64 example_peer [Opt CHR ''f'' ''a'', Opt CHR ''m'' ''1024''] 3))"
proof -
  let ?opts = "[Opt CHR ''f'' ''a'', Opt CHR ''m'' ''1024'']"
  have hyps: "buffercapacity (parse_options lp64 ?opts) \<noteq> 0"
    "buffercapacity (parse_options lp64 ?opts) < 2 ^ 31"
    by (simp_all add: example_args)
  from one_request_in_flight [OF hyps, of Control_chan lp64 example_peer 3 ?opts] hyps
  show ?thesis by simp
qed

text \<open>
  With a positive capacity no read is empty: every \<^verbatim>\<open>cread\<close> of the run asks for at
  least one byte.
\<close>

lemma file_loop_reads:
  assumes C: "0 < C" "C < 2 ^ 31"
    and ev: "CRead ch' n \<in> set (fst (file_loop h srv ch name out C L fuel off))"
  shows "0 < n"
proof -
  from file_loop_events [OF ev] obtain off' where off': "off' < L"
      "CRead ch' n \<in> set (fst (file_iteration h srv ch name out C L off'))"
    by blast
  from off'(2) have "n = nat (chunk_length C L off')"
    by (cases rule: file_iteration_cases [of off' C h srv ch name out L]) auto
  with chunk_length_bounds [OF C off'(1)] show ?thesis by simp
qed

lemma request_file_reads:
  assumes C: "0 < buffercapacity a" "buffercapacity a < 2 ^ 31"
    and ev: "CRead ch' n \<in> set (fst (request_file h srv ch a fuel))"
  shows "0 < n"
proof -
  let ?out = "''received/'' @ filename a"
  let ?loop = "file_loop h srv ch (filename a) ?out (buffercapacity a) (filelen_reply srv) fuel 0"
  from ev have "CRead ch' n \<in> set (fst (file_request h ch (filename a) 0 0)) \<or>
      n = sizeof_int64 \<or> CRead ch' n \<in> set (fst ?loop)"
    by (auto simp: request_file_def fst_then_run snd_then_run Let_def split: if_splits)
  moreover have "CRead ch' n \<notin> set (fst (file_request h ch (filename a) 0 0))"
    using file_request_shape [of h ch "filename a" 0 0] by auto
  ultimately show ?thesis
    using file_loop_reads [OF C] by (auto simp: sizeof_int64_def)
qed

lemma requests_reads:
  assumes C: "0 < buffercapacity a" "buffercapacity a < 2 ^ 31"
    and ev: "CRead ch' n \<in> set (fst (requests h srv ch a fuel))"
  shows "0 < n"
proof -
  have points: "\<forall>ev \<in> set (fst (data_points h srv ch a)). \<forall>ch' n. ev = CRead ch' n \<longrightarrow> 0 < n"
    by (rule data_points_events) (simp_all add: sizeof_double_def)
  from ev have "CRead ch' n \<in> set (fst (data_points h srv ch a)) \<or>
      CRead ch' n \<in> set (fst (request_file h srv ch a fuel))"
    by (auto simp: requests_def fst_then_run close_channel_def split: if_splits)
  then show ?thesis
    using points request_file_reads [OF C] by blast
qed

lemma reads_not_empty:
  assumes C: "0 < buffercapacity a" "buffercapacity a < 2 ^ 31"
    and ev: "CRead ch n \<in> set (fst (client h srv a fuel))"
  shows "0 < n"
proof (cases "snd (request_new_channel h srv a)")
  case (Inl f)
  with ev have "CRead ch n \<in> set (fst (request_new_channel h srv a))"
    by (simp add: client_unfold leave_main_def run_server_def)
  then show ?thesis by (auto simp: request_new_channel_eq split: if_splits)
next
  case (Inr active_chan)
  let ?req = "requests h srv active_chan a fuel"
  from Inr have "fst (client h srv a fuel) =
        run_server a # fst (request_new_channel h srv a) @ fst ?req \<or>
      fst (client h srv a fuel) =
        run_server a # fst (request_new_channel h srv a) @ fst ?req @ [Close Control_chan]"
    by (cases "snd ?req"; simp add: client_unfold leave_main_def)
  with ev have "CRead ch n \<in> set (fst (request_new_channel h srv a)) \<or>
      CRead ch n \<in> set (fst ?req)"
    by (auto simp: run_server_def)
  then show ?thesis
    using requests_reads [OF C] by (auto simp: request_new_channel_eq split: if_splits)
qed

subsection \<open>The channel of the requests\<close>

lemma stays_on_then_run:
  assumes "stays_on h ch r1" and "stays_on h ch r2"
  shows "stays_on h ch (then_run r1 r2)"
  using assms by (auto simp: stays_on_def fst_then_run snd_then_run)

lemma stays_on_requests: "stays_on h ch (requests h srv ch a fuel)"
  by (rule requests_closed [where R = "stays_on h ch" and G = "\<lambda>n. True"])
     (simp_all add: stays_on_then_run, simp_all add: stays_on_def chan_of_def close_channel_def)

lemma tags_differ:
  "0 < sz \<Longrightarrow> object_rep (Mtype NEWCHANNEL_MSG) sz \<noteq> object_rep (Mtype QUIT_MSG) sz"
  by (cases sz) (simp_all add: object_rep_def upt_conv_Cons del: upt_Suc)

text \<open>
  Claim C9. With \<^verbatim>\<open>-c\<close>, after the NEWCHANNEL request and its reply (the events that
  follow the start of the server), every \<^verbatim>\<open>cwrite\<close> and \<^verbatim>\<open>cread\<close> is on the new
  channel; a run that returns 0 has written QUIT on the new channel; and QUIT is never
  written on the control channel.
\<close>

theorem quit_on_new_channel_only:
  assumes "c a" and "0 < sizeof_MESSAGE_TYPE h"
  shows "CWrite Control_chan (quit_message h) \<notin> set (fst (client h srv a fuel)) \<and>
    (\<exists>n. (\<forall>ev \<in> set (drop 3 (fst (client h srv a fuel))).
             chan_of ev = None \<or> chan_of ev = Some (New_chan n)) \<and>
          (snd (client h srv a fuel) = Returned 0 \<longrightarrow>
             CWrite (New_chan n) (quit_message h) \<in> set (fst (client h srv a fuel))))"
proof (cases "snd (request_new_channel h srv a)")
  case (Inl f)
  let ?es = "fst (request_new_channel h srv a)"
  from Inl have run: "client h srv a fuel = (run_server a # ?es, Aborted f)"
    by (simp add: client_unfold leave_main_def)
  have short: "?es = [] \<or>
      ?es = [CWrite Control_chan (object_rep (Mtype NEWCHANNEL_MSG) (sizeof_MESSAGE_TYPE h)),
             CRead Control_chan 30]"
    using assms(1) by (simp add: request_new_channel_eq)
  then have "CWrite Control_chan (quit_message h) \<notin> set (run_server a # ?es)"
    using tags_differ [OF assms(2)] by (auto simp: run_server_def quit_message_def)
  moreover from short have "drop 3 (run_server a # ?es) = []" by auto
  ultimately show ?thesis by (simp add: run)
next
  case (Inr active_chan)
  define n where "n = takeWhile (\<lambda>x. x \<noteq> NUL) (take 30 (newchannel_reply srv))"
  define req where "req = requests h srv (New_chan n) a fuel"
  let ?ask = "[CWrite Control_chan (object_rep (Mtype NEWCHANNEL_MSG) (sizeof_MESSAGE_TYPE h)),
               CRead Control_chan 30]"
  from Inr assms(1) have new: "request_new_channel h srv a = (?ask, Inr (New_chan n))"
    by (auto simp: request_new_channel_eq n_def split: if_splits)
  have run: "client h srv a fuel = leave_main (run_server a # ?ask @ fst req, snd req)"
    by (simp add: client_unfold new req_def)
  have req: "stays_on h (New_chan n) req"
    unfolding req_def by (rule stays_on_requests)
  have events: "fst (client h srv a fuel) = run_server a # ?ask @ fst req \<or>
      fst (client h srv a fuel) = run_server a # ?ask @ fst req @ [Close Control_chan]"
    and status: "snd (client h srv a fuel) = snd req"
    unfolding run by (cases "snd req"; simp add: leave_main_def)+
  have control: "CWrite Control_chan (quit_message h) \<notin> set (fst req)"
    using req by (auto simp: stays_on_def chan_of_def)
  have "CWrite Control_chan (quit_message h) \<notin> set (fst (client h srv a fuel))"
    using events control tags_differ [OF assms(2)]
    by (auto simp: run_server_def quit_message_def)
  moreover have "\<forall>ev \<in> set (drop 3 (fst (client h srv a fuel))).
      chan_of ev = None \<or> chan_of ev = Some (New_chan n)"
    using events req by (auto simp: stays_on_def chan_of_def)
  moreover have "snd (client h srv a fuel) = Returned 0 \<longrightarrow>
      CWrite (New_chan n) (quit_message h) \<in> set (fst (client h srv a fuel))"
    using events req unfolding status by (auto simp: stays_on_def)
  ultimately show ?thesis by blast
qed

text \<open>A run with \<^verbatim>\<open>-c -p 3 -t 0.004 -e 2 -m 1024\<close>.\<close>

lemma example_new_channel_run:
  "client lp64 example_peer
     \<lparr>p = 3, t = Finite 0.004, c = True, e = 2, filename = [], buffercapacity = 1024\<rparr> 0 =
   ([Exec [''./server'', ''-m'', ''1024''],
     CWrite Control_chan (object_rep (Mtype NEWCHANNEL_MSG) 4),
     CRead Control_chan 30,
     CWrite (New_chan ''data1_'') (object_rep (Datamsg 3 (Finite 0.004) 2) 24),
     CRead (New_chan ''data1_'') 8,
     Cout (Value_line 3 (Finite 0.004) 2 (ecg_reply example_peer 3 (Finite 0.004) 2)),
     Cout (Closing_channel ''data1_''),
     CWrite (New_chan ''data1_'') (quit_message lp64),
     Close (New_chan ''data1_''),
     Close Control_chan],
    Returned 0)"
proof -
  let ?a = "\<lparr>p = 3, t = Finite 0.004, c = True, e = 2, filename = [], buffercapacity = 1024\<rparr>"
  have sz: "sizeof_MESSAGE_TYPE lp64 = 4" "sizeof_datamsg lp64 = 24"
    by (simp_all add: lp64_def)
  have name: "takeWhile (\<lambda>x. x \<noteq> NUL) (take 30 (newchannel_reply example_peer)) = ''data1_''"
    "NUL \<in> set (take 30 (newchannel_reply example_peer))"
    by (simp_all add: example_peer_def NUL_def)
  have new: "request_new_channel lp64 example_peer ?a =
      ([CWrite Control_chan (object_rep (Mtype NEWCHANNEL_MSG) 4), CRead Control_chan 30],
       Inr (New_chan ''data1_''))"
    by (simp add: request_new_channel_eq sz name)
  have str: "to_string 1024 = ''1024''"
    by (simp add: to_string_def digits_of.simps)
  have points: "data_points lp64 example_peer (New_chan ''data1_'') ?a =
      ([CWrite (New_chan ''data1_'') (object_rep (Datamsg 3 (Finite 0.004) 2) 24),
        CRead (New_chan ''data1_'') 8,
        Cout (Value_line 3 (Finite 0.004) 2 (ecg_reply example_peer 3 (Finite 0.004) 2))], Running)"
    by (simp add: data_points_def request_data_point_def new_char_def ask_data_eq sz
        sizeof_double_def)
  have nofile: "request_file lp64 example_peer (New_chan ''data1_'') ?a 0 = ([], Running)"
    by (simp add: request_file_def)
  show ?thesis
    unfolding client_def new prod.case sum.case points nofile
    by (simp add: close_channel_def leave_main_def run_server_def str)
qed

theorem quit_on_new_channel_only_witness:
  "c \<lparr>p = 3, t = Finite 0.004, c = True, e = 2, filename = [], buffercapacity = 1024\<rparr> \<and>
   0 < sizeof_MESSAGE_TYPE lp64 \<and>
   CWrite Control_chan (quit_message lp64)
     \<notin> set (fst (client lp64 example_peer
          \<lparr>p = 3, t = Finite 0.004, c = True, e = 2, filename = [], buffercapacity = 1024\<rparr> 0)) \<and>
   snd (client lp64 example_peer
          \<lparr>p = 3, t = Finite 0.004, c = True, e = 2, filename = [], buffercapacity = 1024\<rparr> 0)
     = Returned 0 \<and>
   CWrite (New_chan ''data1_'') (quit_message lp64)
     \<in> set (fst (client lp64 example_peer
          \<lparr>p = 3, t = Finite 0.004, c = True, e = 2, filename = [], buffercapacity = 1024\<rparr> 0))"
proof -
  let ?a = "\<lparr>p = 3, t = Finite 0.004, c = True, e = 2, filename = [], buffercapacity = 1024\<rparr>"
  have c: "c ?a" by simp
  have sz: "0 < sizeof_MESSAGE_TYPE lp64" by (simp add: lp64_def)
  note control = quit_on_new_channel_only [OF c sz, of example_peer 0, THEN conjunct1]
  have "snd (client lp64 example_peer ?a 0) = Returned 0"
    by (simp only: example_new_channel_run snd_conv)
  moreover have "CWrite (New_chan ''data1_'') (quit_message lp64)
      \<in> set (fst (client lp64 example_peer ?a 0))"
    by (simp only: example_new_channel_run fst_conv) simp
  ultimately show ?thesis using c sz control by (intro conjI)
qed

subsection \<open>The capacity in the whole run\<close>

text \<open>A chunk is never longer than the capacity, whatever the sign of the capacity.\<close>

lemma chunk_length_le:
  assumes "C < 2 ^ 31" "off < L"
  shows "chunk_length C L off \<le> C"
proof (cases "off + C > L")
  case True
  have "to_int32 (L - off) = L - off"
    using True assms by (intro to_int32_id) simp_all
  with True assms show ?thesis by (simp add: chunk_length_def)
next
  case False
  then show ?thesis by (simp add: chunk_length_def)
qed

lemma file_loop_requests:
  assumes C: "C < 2 ^ 31"
    and r: "(off, k) \<in> set (file_requests (fst (file_loop h srv ch name out C L fuel off0)))"
  shows "k \<le> C \<and> (0 < C \<longrightarrow> 0 < k)"
proof -
  from r obtain ev where ev: "ev \<in> set (fst (file_loop h srv ch name out C L fuel off0))"
      "request_of ev = Some (off, k)"
    by (auto simp: file_requests_member)
  from file_loop_events [OF ev(1)] obtain off' where off': "off' < L"
      "ev \<in> set (fst (file_iteration h srv ch name out C L off'))"
    by blast
  from ev(2) obtain ch' bs where w: "ev = CWrite ch' bs"
    by (cases ev) (simp_all add: request_of_def)
  from off'(2) have "\<exists>st. file_request h ch name off' (chunk_length C L off') = ([CWrite ch' bs], st)"
    unfolding w
    by (cases rule: file_iteration_cases [of off' C h srv ch name out L]) auto
  then obtain st where "file_request h ch name off' (chunk_length C L off') = ([CWrite ch' bs], st)"
    by blast
  from file_request_request_of [OF this] ev(2) w
  have "k = chunk_length C L off'" by auto
  with chunk_length_le [OF C off'(1)] chunk_length_bounds [OF _ C off'(1)] show ?thesis by simp
qed

text \<open>The FILE requests of a run are those of its file transfer: the probe and the chunks.\<close>

lemma request_of_tag [simp]: "request_of (CWrite ch (object_rep (Mtype m) n)) = None"
  by (cases n) (simp_all add: request_of_def object_rep_def upt_conv_Cons del: upt_Suc)

lemma request_of_datamsg [simp]:
  "request_of (CWrite ch (object_rep (Datamsg person seconds ecgno) n)) = None"
  by (cases n) (simp_all add: request_of_def object_rep_def upt_conv_Cons del: upt_Suc)

lemma request_file_requests:
  assumes C: "buffercapacity a < 2 ^ 31"
    and r: "(off, k) \<in> set (file_requests (fst (request_file h srv ch a fuel)))"
  shows "(off, k) = (0, 0) \<or> (k \<le> buffercapacity a \<and> (0 < buffercapacity a \<longrightarrow> 0 < k))"
proof -
  let ?out = "''received/'' @ filename a"
  let ?loop = "file_loop h srv ch (filename a) ?out (buffercapacity a) (filelen_reply srv) fuel 0"
  from r obtain ev where ev: "ev \<in> set (fst (request_file h srv ch a fuel))"
      "request_of ev = Some (off, k)"
    by (auto simp: file_requests_member)
  from ev(1) have "ev \<in> set (fst (file_request h ch (filename a) 0 0)) \<or>
      request_of ev = None \<or> ev \<in> set (fst ?loop)"
    by (auto simp: request_file_def fst_then_run snd_then_run Let_def split: if_splits)
  then consider (probe) "ev \<in> set (fst (file_request h ch (filename a) 0 0))"
    | (loop) "ev \<in> set (fst ?loop)"
    using ev(2) by auto
  then show ?thesis
  proof cases
    case probe
    with file_request_shape [of h ch "filename a" 0 0]
    obtain bs where "file_request h ch (filename a) 0 0 = ([CWrite ch bs], Running)"
        "ev = CWrite ch bs"
      by auto
    with file_request_request_of [of h ch "filename a" 0 0 ch bs Running] ev(2)
    show ?thesis by auto
  next
    case loop
    with ev(2) have "(off, k) \<in> set (file_requests (fst ?loop))"
      by (auto simp: file_requests_member)
    from file_loop_requests [OF C this] show ?thesis by simp
  qed
qed

lemma requests_requests:
  assumes C: "buffercapacity a < 2 ^ 31"
    and r: "(off, k) \<in> set (file_requests (fst (requests h srv ch a fuel)))"
  shows "(off, k) = (0, 0) \<or> (k \<le> buffercapacity a \<and> (0 < buffercapacity a \<longrightarrow> 0 < k))"
proof -
  have points: "\<forall>ev \<in> set (fst (data_points h srv ch a)). request_of ev = None"
    by (rule data_points_events) simp_all
  from r obtain ev where ev: "ev \<in> set (fst (requests h srv ch a fuel))"
      "request_of ev = Some (off, k)"
    by (auto simp: file_requests_member)
  from ev(1) have "ev \<in> set (fst (data_points h srv ch a)) \<or>
      ev \<in> set (fst (request_file h srv ch a fuel)) \<or> request_of ev = None"
    by (auto simp: requests_def fst_then_run close_channel_def quit_message_def split: if_splits)
  with points ev(2) have "ev \<in> set (fst (request_file h srv ch a fuel))"
    by auto
  with ev(2) have "(off, k) \<in> set (file_requests (fst (request_file h srv ch a fuel)))"
    by (auto simp: file_requests_member)
  from request_file_requests [OF C this] show ?thesis .
qed

lemma client_requests:
  assumes C: "buffercapacity a < 2 ^ 31"
    and r: "(off, k) \<in> set (file_requests (fst (client h srv a fuel)))"
  shows "(off, k) = (0, 0) \<or> (k \<le> buffercapacity a \<and> (0 < buffercapacity a \<longrightarrow> 0 < k))"
proof -
  from r obtain ev where ev: "ev \<in> set (fst (client h srv a fuel))"
      "request_of ev = Some (off, k)"
    by (auto simp: file_requests_member)
  show ?thesis
  proof (cases "snd (request_new_channel h srv a)")
    case (Inl f)
    with ev(1) have "ev = run_server a \<or> ev \<in> set (fst (request_new_channel h srv a))"
      by (simp add: client_unfold leave_main_def)
    then have "request_of ev = None"
      by (auto simp: request_new_channel_eq run_server_def split: if_splits)
    with ev(2) show ?thesis by simp
  next
    case (Inr active_chan)
    let ?req = "requests h srv active_chan a fuel"
    from Inr have "fst (client h srv a fuel) =
          run_server a # fst (request_new_channel h srv a) @ fst ?req \<or>
        fst (client h srv a fuel) =
          run_server a # fst (request_new_channel h srv a) @ fst ?req @ [Close Control_chan]"
      by (cases "snd ?req"; simp add: client_unfold leave_main_def)
    with ev(1) have "ev = run_server a \<or> ev \<in> set (fst (request_new_channel h srv a)) \<or>
        ev \<in> set (fst ?req) \<or> ev = Close Control_chan"
      by auto
    then have "request_of ev = None \<or> ev \<in> set (fst ?req)"
      by (auto simp: request_new_channel_eq run_server_def split: if_splits)
    with ev(2) have "(off, k) \<in> set (file_requests (fst ?req))"
      by (auto simp: file_requests_member)
    from requests_requests [OF C this] show ?thesis .
  qed
qed

lemma example_client_requests:
  "file_requests (fst (client lp64 example_peer
      \<lparr>p = - 1, t = Finite (- 1), c = False, e = 1, filename = ''a'', buffercapacity = 1024\<rparr> 3)) =
     [(0, 0), (0, 1024), (1024, 1024), (2048, 452)]"
proof -
  have sz: "0 < sizeof_filemsg lp64" by (simp add: lp64_def)
  show ?thesis
    by (simp add: client_unfold request_new_channel_eq requests_def data_points_def
        example_transfer close_channel_def leave_main_def run_server_def quit_message_def
        file_requests_Cons file_requests_append file_requests_chunk_events
        request_of_chunk_write sz)
qed

text \<open>
  Claim C7, as amended. The capacity is what \<^verbatim>\<open>atoi\<close> makes of the argument of the
  last \<^verbatim>\<open>-m\<close>, and \<^verbatim>\<open>MAX_MESSAGE\<close> without one; it is not checked. The server is
  started with the same value. In the whole run of the client, whatever the other
  options, the peer and the fuel, every FILE request other than \<^verbatim>\<open>FILE(0, 0)\<close> asks for
  no more bytes than the capacity, and when the capacity is positive it asks for at
  least one byte.
\<close>

theorem capacity_as_given:
  assumes "MAX_MESSAGE h < 2 ^ 31" and "a = parse_options h opts"
  shows "buffercapacity a =
           (case capacity_option opts of None \<Rightarrow> MAX_MESSAGE h | Some s \<Rightarrow> atoi s) \<and>
         hd (fst (client h srv a fuel)) = Exec [''./server'', ''-m'', to_string (buffercapacity a)] \<and>
         (\<forall>(offset, chunk) \<in> set (file_requests (fst (client h srv a fuel))).
            (offset, chunk) = (0, 0) \<or>
            (chunk \<le> buffercapacity a \<and> (0 < buffercapacity a \<longrightarrow> 0 < chunk)))"
proof -
  have cap: "buffercapacity a =
      (case capacity_option opts of None \<Rightarrow> MAX_MESSAGE h | Some s \<Rightarrow> atoi s)"
    unfolding assms(2) parse_options_def buffercapacity_foldl
    by (simp add: initial_args_def split: option.split)
  then have "buffercapacity a < 2 ^ 31"
    using assms(1) atoi_range by (simp split: option.splits)
  then have "\<forall>(offset, chunk) \<in> set (file_requests (fst (client h srv a fuel))).
      (offset, chunk) = (0, 0) \<or>
      (chunk \<le> buffercapacity a \<and> (0 < buffercapacity a \<longrightarrow> 0 < chunk))"
    using client_requests by blast
  moreover have "hd (fst (client h srv a fuel)) =
      Exec [''./server'', ''-m'', to_string (buffercapacity a)]"
    by (cases "request_new_channel h srv a"; cases "snd (request_new_channel h srv a)")
       (auto simp: client_def leave_main_def run_server_def fst_then_run snd_then_run
          split: status.splits)
  ultimately show ?thesis using cap by blast
qed

text \<open>
  \<^verbatim>\<open>-f a -m 1024\<close> and a file of 2500 bytes: the server is started with \<^verbatim>\<open>-m 1024\<close>, and
  the last chunk is of 452 bytes.
\<close>

theorem capacity_as_given_witness:
  "MAX_MESSAGE lp64 < 2 ^ 31 \<and>
   buffercapacity (parse_options lp64 [Opt CHR ''f'' ''a'', Opt CHR ''m'' ''1024'']) = atoi ''1024'' \<and>
   atoi ''1024'' = 1024 \<and>
   hd (fst (client lp64 example_peer
              (parse_options lp64 [Opt CHR ''f'' ''a'', Opt CHR ''m'' ''1024'']) 3))
     = Exec [''./server'', ''-m'', ''1024''] \<and>
   file_requests (fst (client lp64 example_peer
        (parse_options lp64 [Opt CHR ''f'' ''a'', Opt CHR ''m'' ''1024'']) 3)) =
     [(0, 0), (0, 1024), (1024, 1024), (2048, 452)] \<and>
   (452::int) \<le> buffercapacity (parse_options lp64 [Opt CHR ''f'' ''a'', Opt CHR ''m'' ''1024'']) \<and>
   (0::int) < 452"
proof -
  let ?opts = "[Opt CHR ''f'' ''a'', Opt CHR ''m'' ''1024'']"
  have hyps: "MAX_MESSAGE lp64 < 2 ^ 31" "parse_options lp64 ?opts = parse_options lp64 ?opts"
    by (simp_all add: lp64_def)
  have reqs: "file_requests (fst (client lp64 example_peer (parse_options lp64 ?opts) 3)) =
      [(0, 0), (0, 1024), (1024, 1024), (2048, 452)]"
    unfolding example_args by (rule example_client_requests)
  have str: "to_string 1024 = ''1024''"
    by (simp add: to_string_def digits_of.simps)
  from capacity_as_given [OF hyps, of example_peer 3] reqs hyps(1)
  show ?thesis by (auto simp: example_args atoi_1024 str)
qed

end
